theory Spec2Isabelle
  imports Main "HOL-Library.Sublist"
begin


section \<open>Python strings\<close>

text \<open>
  A Python \<^verbatim>\<open>str\<close> is modelled as a \<^typ>\<open>string\<close>, one \<^typ>\<open>char\<close> per code point
  (code points below 256). The operations below are the methods of \<^verbatim>\<open>str\<close> that the
  repository calls: \<^verbatim>\<open>sub in s\<close>, \<^verbatim>\<open>s.find(sub, start)\<close>, slicing, \<^verbatim>\<open>strip\<close>,
  \<^verbatim>\<open>split\<close>, \<^verbatim>\<open>replace\<close>, \<^verbatim>\<open>lower\<close>, \<^verbatim>\<open>startswith\<close> and \<^verbatim>\<open>join\<close>.
\<close>

definition dquote :: char where
  "dquote = CHR 0x22"

definition squote :: char where
  "squote = CHR 0x27"

definition backslash :: char where
  "backslash = CHR 0x5C"

definition newline :: char where
  "newline = CHR 0x0A"

text \<open>\<^verbatim>\<open>sub in s\<close>: some suffix of \<open>s\<close> starts with \<open>sub\<close>.\<close>

fun contains :: "string \<Rightarrow> string \<Rightarrow> bool" where
  "contains sub [] = (sub = [])"
| "contains sub (c # cs) = (prefix sub (c # cs) \<or> contains sub cs)"

text \<open>The index of the first occurrence of \<open>sub\<close> in a suffix that starts at index \<open>i\<close>,
  or \<open>-1\<close>.\<close>

fun find_at :: "string \<Rightarrow> string \<Rightarrow> nat \<Rightarrow> int" where
  "find_at sub [] i = (if sub = [] then int i else - 1)"
| "find_at sub (c # cs) i = (if prefix sub (c # cs) then int i else find_at sub cs (Suc i))"

text \<open>Python clamps a slice bound to \<open>0 .. len\<close>, counting a negative bound from the end.\<close>

definition clamp_index :: "string \<Rightarrow> int \<Rightarrow> nat" where
  "clamp_index s i =
     (if i < 0 then nat (max 0 (int (length s) + i)) else min (nat i) (length s))"

text \<open>\<^verbatim>\<open>s.find(sub, start)\<close>.\<close>

definition str_find :: "string \<Rightarrow> string \<Rightarrow> int \<Rightarrow> int" where
  "str_find s sub start =
     (if int (length s) < start then - 1
      else find_at sub (drop (clamp_index s start) s) (clamp_index s start))"

text \<open>\<^verbatim>\<open>s[start:end]\<close> and \<^verbatim>\<open>s[start:]\<close>.\<close>

definition str_slice :: "string \<Rightarrow> int \<Rightarrow> int \<Rightarrow> string" where
  "str_slice s start endpos =
     take (clamp_index s endpos - clamp_index s start) (drop (clamp_index s start) s)"

definition str_from :: "string \<Rightarrow> int \<Rightarrow> string" where
  "str_from s start = drop (clamp_index s start) s"

text \<open>\<^verbatim>\<open>str.isspace\<close> on the code points below 256.\<close>

definition is_space :: "char \<Rightarrow> bool" where
  "is_space c =
     (let n = (of_char c :: nat)
      in (9 \<le> n \<and> n \<le> 13) \<or> (28 \<le> n \<and> n \<le> 32) \<or> n = 133 \<or> n = 160)"

definition strip :: "string \<Rightarrow> string" where
  "strip s = rev (dropWhile is_space (rev (dropWhile is_space s)))"

text \<open>\<^verbatim>\<open>s.split(d)\<close> for a one-character separator: never the empty list.\<close>

fun split_on :: "char \<Rightarrow> string \<Rightarrow> string list" where
  "split_on d [] = [[]]"
| "split_on d (c # cs) =
     (let r = split_on d cs in if c = d then [] # r else (c # hd r) # tl r)"

text \<open>\<^verbatim>\<open>s.replace(old, new)\<close>: the non-overlapping occurrences, from the left.\<close>

function replace :: "string \<Rightarrow> string \<Rightarrow> string \<Rightarrow> string" where
  "replace old new [] = (if old = [] then new else [])"
| "replace old new (c # cs) =
     (if old = [] then new @ c # replace old new cs
      else if prefix old (c # cs) then new @ replace old new (drop (length old) (c # cs))
      else c # replace old new cs)"
  by pat_completeness auto
termination
  by (relation "measure (\<lambda>(old, new, s). length s)") auto

text \<open>\<^verbatim>\<open>str.lower\<close> on the code points below 256.\<close>

definition lower_char :: "char \<Rightarrow> char" where
  "lower_char c =
     (let n = (of_char c :: nat)
      in if (65 \<le> n \<and> n \<le> 90) \<or> (192 \<le> n \<and> n \<le> 222 \<and> n \<noteq> 215)
         then char_of (n + 32) else c)"

definition lower :: "string \<Rightarrow> string" where
  "lower s = map lower_char s"

text \<open>\<^verbatim>\<open>sep.join(xs)\<close>.\<close>

fun join :: "string \<Rightarrow> string list \<Rightarrow> string" where
  "join sep [] = []"
| "join sep [x] = x"
| "join sep (x # y # ys) = x @ sep @ join sep (y # ys)"

text \<open>\<^verbatim>\<open>str(n)\<close> for a non-negative integer.\<close>

function show_nat :: "nat \<Rightarrow> string" where
  "show_nat n =
     (if n < 10 then [''0123456789'' ! n]
      else show_nat (n div 10) @ [''0123456789'' ! (n mod 10)])"
  by pat_completeness auto
termination
  by (relation "measure id") auto

declare show_nat.simps [simp del]

section \<open>Recorded actions\<close>

text \<open>
  An action is a dictionary whose \<^verbatim>\<open>"type"\<close> entry is its tag. The \<^verbatim>\<open>"timestamp"\<close>
  entry (\<^verbatim>\<open>datetime.now().isoformat()\<close>) is left out of the model: no function below
  reads it. A selector dictionary is the list of its entries, which are strings: the code
  extractor writes \<^verbatim>\<open>"type"\<close> and \<^verbatim>\<open>"value"\<close>, and the readers ask for \<^verbatim>\<open>"type"\<close>,
  \<^verbatim>\<open>"value"\<close> and \<^verbatim>\<open>"name"\<close> with \<^verbatim>\<open>get(key, "")\<close>. The \<^verbatim>\<open>"selector"\<close> entry of an
  action is a dictionary where the code extractor wrote it and a string where
  \<^verbatim>\<open>_make_selector_readable\<close> reads it.
\<close>

type_synonym selector_info = "(string \<times> string) list"

text \<open>\<^verbatim>\<open>d.get(key, "")\<close>.\<close>

definition dict_get :: "selector_info \<Rightarrow> string \<Rightarrow> string" where
  "dict_get d key = (case map_of d key of Some v \<Rightarrow> v | None \<Rightarrow> [])"

datatype selector = SelStr string | SelDict selector_info

datatype action =
    Navigate string
  | Click selector
  | Fill selector string
  | Keypress string

datatype py_error = AttributeError | TypeError | KeyError | JSONDecodeError

definition mk_selector :: "string \<Rightarrow> string \<Rightarrow> selector" where
  "mk_selector t v = SelDict [(''type'', t), (''value'', v)]"

subsection \<open>\<^verbatim>\<open>PlaywrightCodegenRecorder._extract_actions_from_code\<close>\<close>

text \<open>
  The block that every accessor branch repeats, for the accessor \<open>acc\<close>
  (\<^verbatim>\<open>get_by_test_id\<close>, \<^verbatim>\<open>get_by_role\<close>, \<^verbatim>\<open>locator\<close>):
  \<^verbatim>\<open>
  start = line.find('acc("') + len('acc("')
  if start < len('acc("'):
      start = line.find("acc('") + len("acc('")
  end = line.find('"', start) if '"' in line[start:] else line.find("'", start)
  if end > start:
      selector = line[start:end]
  \<close>
\<close>

definition quoted_argument :: "string \<Rightarrow> string \<Rightarrow> string option" where
  "quoted_argument acc line =
     (let dpat = acc @ [CHR ''('', dquote];
          spat = acc @ [CHR ''('', squote];
          start0 = str_find line dpat 0 + int (length dpat);
          start = (if start0 < int (length dpat)
                   then str_find line spat 0 + int (length spat) else start0);
          endpos = (if contains [dquote] (str_from line start)
                    then str_find line [dquote] start else str_find line [squote] start)
      in if endpos > start then Some (str_slice line start endpos) else None)"

text \<open>The navigation branch: the double quote is tried first, then the single quote.\<close>

definition goto_url_with :: "char \<Rightarrow> string \<Rightarrow> string option" where
  "goto_url_with quote line =
     (let pattern = ''page.goto('' @ [quote]
      in if contains pattern line
         then (let start = str_find line pattern 0 + int (length pattern);
                   endpos = str_find line [quote] start
               in if endpos > start then Some (str_slice line start endpos) else None)
         else None)"

definition goto_url :: "string \<Rightarrow> string option" where
  "goto_url line =
     (case goto_url_with dquote line of
        Some url \<Rightarrow> Some url
      | None \<Rightarrow> goto_url_with squote line)"

text \<open>The click branch checks three accessors.\<close>

definition click_selector :: "string \<Rightarrow> selector option" where
  "click_selector line =
     (if contains ''get_by_test_id('' line
      then map_option (mk_selector ''testid'') (quoted_argument ''get_by_test_id'' line)
      else if contains ''get_by_role('' line
      then map_option (mk_selector ''role'') (quoted_argument ''get_by_role'' line)
      else if contains ''locator('' line
      then map_option (mk_selector ''css'') (quoted_argument ''locator'' line)
      else None)"

text \<open>The fill branch checks two.\<close>

definition fill_selector :: "string \<Rightarrow> selector option" where
  "fill_selector line =
     (if contains ''get_by_test_id('' line
      then map_option (mk_selector ''testid'') (quoted_argument ''get_by_test_id'' line)
      else if contains ''locator('' line
      then map_option (mk_selector ''css'') (quoted_argument ''locator'' line)
      else None)"

definition fill_value_with :: "char \<Rightarrow> string \<Rightarrow> string option" where
  "fill_value_with quote line =
     (let pattern = ''.fill('' @ [quote]
      in if contains pattern line
         then (let value_start = str_find line pattern 0 + int (length pattern);
                   value_end = str_find line [quote] value_start
               in if value_end > value_start
                  then Some (str_slice line value_start value_end) else None)
         else None)"

definition fill_value :: "string \<Rightarrow> string" where
  "fill_value line =
     (case fill_value_with dquote line of
        Some v \<Rightarrow> v
      | None \<Rightarrow> (case fill_value_with squote line of Some v \<Rightarrow> v | None \<Rightarrow> []))"

text \<open>The body of the loop, on a line that is already stripped: at most one action.\<close>

definition extract_line :: "string \<Rightarrow> action option" where
  "extract_line line =
     (if contains ''page.goto('' line then map_option Navigate (goto_url line)
      else if contains ''.click()'' line then map_option Click (click_selector line)
      else if contains ''.fill('' line
      then map_option (\<lambda>s. Fill s (fill_value line)) (fill_selector line)
      else None)"

fun extract_lines :: "string list \<Rightarrow> action list \<Rightarrow> action list" where
  "extract_lines [] acts = acts"
| "extract_lines (l # ls) acts =
     extract_lines ls
       (case extract_line (strip l) of None \<Rightarrow> acts | Some a \<Rightarrow> acts @ [a])"

text \<open>The state it reads and writes is passed explicitly: the generated code, the
  start URL, and the list \<^verbatim>\<open>recorded_actions\<close>, which is returned updated.\<close>

definition extract_actions_from_code :: "string \<Rightarrow> string \<Rightarrow> action list \<Rightarrow> action list" where
  "extract_actions_from_code generated_python_code start_url recorded_actions =
     (if generated_python_code = [] then recorded_actions @ [Navigate start_url]
      else (let acts = extract_lines (split_on newline generated_python_code) recorded_actions
            in if acts = [] then [Navigate start_url] else acts))"

subsection \<open>\<^verbatim>\<open>convert_actions_to_test_steps\<close>\<close>

text \<open>\<^verbatim>\<open>_make_selector_readable\<close>: an empty string and an empty dictionary are
  \<^verbatim>\<open>"element"\<close>; on anything else it calls \<^verbatim>\<open>startswith\<close>, which a dictionary does not
  have.\<close>

definition make_selector_readable :: "selector \<Rightarrow> py_error + string" where
  "make_selector_readable selector =
     (case selector of
        SelDict d \<Rightarrow> if d = [] then Inr ''element'' else Inl AttributeError
      | SelStr s \<Rightarrow>
          if s = [] then Inr ''element''
          else if prefix ''data-testid='' s then Inr (replace ''data-testid='' [] s)
          else if prefix ''#'' s then Inr (''element with id '' @ [squote] @ drop 1 s @ [squote])
          else if prefix (''[name='' @ [squote]) s
          then Inr (''field '' @ [squote]
                    @ replace [squote, CHR '']''] [] (replace (''[name='' @ [squote]) [] s)
                    @ [squote])
          else if prefix (''text='' @ [squote]) s
          then Inr ([squote] @ replace [squote] [] (replace (''text='' @ [squote]) [] s)
                    @ [squote])
          else Inr s)"

text \<open>The line that one action adds, numbered \<open>step_num\<close>.\<close>

definition action_step :: "nat \<Rightarrow> action \<Rightarrow> py_error + string" where
  "action_step step_num a =
     (case a of
        Navigate url \<Rightarrow> Inr (show_nat step_num @ ''. Navigate to '' @ url)
      | Click s \<Rightarrow>
          (case make_selector_readable s of
             Inl e \<Rightarrow> Inl e
           | Inr r \<Rightarrow> Inr (show_nat step_num @ ''. Click on '' @ r))
      | Fill s v \<Rightarrow>
          (case make_selector_readable s of
             Inl e \<Rightarrow> Inl e
           | Inr r \<Rightarrow>
               Inr (show_nat step_num @ ''. Enter '' @ [squote] @ v @ [squote] @ '' in '' @ r))
      | Keypress k \<Rightarrow> Inr (show_nat step_num @ ''. Press '' @ k @ '' key''))"

fun convert_loop :: "action list \<Rightarrow> nat \<Rightarrow> string list \<Rightarrow> py_error + string list" where
  "convert_loop [] step_num steps = Inr steps"
| "convert_loop (a # as) step_num steps =
     (case action_step step_num a of
        Inl e \<Rightarrow> Inl e
      | Inr t \<Rightarrow> convert_loop as (step_num + 1) (steps @ [t]))"

definition convert_actions_to_test_steps :: "action list \<Rightarrow> py_error + string list" where
  "convert_actions_to_test_steps actions = convert_loop actions 1 []"

subsection \<open>\<^verbatim>\<open>BrowserRecorder._extract_locators_from_actions\<close>\<close>

text \<open>\<^verbatim>\<open>action.get("selector", {})\<close>, kept only when it is a dictionary: the empty
  dictionary for an action without a selector.\<close>

fun selector_dict :: "action \<Rightarrow> selector_info option" where
  "selector_dict (Click (SelDict d)) = Some d"
| "selector_dict (Fill (SelDict d) v) = Some d"
| "selector_dict (Click (SelStr s)) = None"
| "selector_dict (Fill (SelStr s) v) = None"
| "selector_dict a = Some []"

definition locator_name :: "string \<Rightarrow> string" where
  "locator_name v =
     (let n = lower (replace '' '' ''_'' (replace ''-'' ''_'' v))
      in if length n > 30 then take 30 n else n)"

text \<open>The Python and the JavaScript declaration of one selector, or nothing for a type
  that has no branch.\<close>

definition locator_lines :: "selector_info \<Rightarrow> (string \<times> string) option" where
  "locator_lines d =
     (let t = dict_get d ''type''; v = dict_get d ''value''; nm = dict_get d ''name'';
          n = locator_name v
      in if t = ''testid''
         then Some (''    '' @ n @ '' = page.get_by_test_id('' @ [dquote] @ v @ [dquote] @ '')'',
                    ''const '' @ n @ '' = page.getByTestId('' @ [squote] @ v @ [squote] @ '');'')
         else if t = ''role''
         then (if nm \<noteq> []
               then Some (''    '' @ n @ '' = page.get_by_role('' @ [dquote] @ v @ [dquote]
                            @ '', name='' @ [dquote] @ nm @ [dquote] @ '')'',
                          ''const '' @ n @ '' = page.getByRole('' @ [squote] @ v @ [squote]
                            @ '', { name: '' @ [squote] @ nm @ [squote] @ '' });'')
               else Some (''    '' @ n @ '' = page.get_by_role('' @ [dquote] @ v @ [dquote] @ '')'',
                          ''const '' @ n @ '' = page.getByRole('' @ [squote] @ v @ [squote] @ '');''))
         else if t = ''text''
         then Some (''    '' @ n @ '' = page.get_by_text('' @ [dquote] @ v @ [dquote] @ '')'',
                    ''const '' @ n @ '' = page.getByText('' @ [squote] @ v @ [squote] @ '');'')
         else if t = ''id''
         then Some (''    '' @ n @ '' = page.locator('' @ [dquote] @ ''#'' @ v @ [dquote] @ '')'',
                    ''const '' @ n @ '' = page.locator('' @ [squote] @ ''#'' @ v @ [squote] @ '');'')
         else if t = ''name''
         then Some (''    '' @ n @ '' = page.locator('' @ [dquote] @ ''[name='' @ [backslash, dquote]
                      @ v @ [backslash, dquote] @ '']'' @ [dquote] @ '')'',
                    ''const '' @ n @ '' = page.locator('' @ [squote] @ ''[name='' @ [dquote]
                      @ v @ [dquote] @ '']'' @ [squote] @ '');'')
         else None)"

text \<open>The loop, with the set \<^verbatim>\<open>seen_selectors\<close> as a list of keys and the two lists of
  lines.\<close>

fun locators_loop ::
  "action list \<Rightarrow> string list \<Rightarrow> string list \<Rightarrow> string list
     \<Rightarrow> string list \<times> string list" where
  "locators_loop [] seen py js = (py, js)"
| "locators_loop (a # as) seen py js =
     (case selector_dict a of
        None \<Rightarrow> locators_loop as seen py js
      | Some d \<Rightarrow>
          if dict_get d ''value'' = [] then locators_loop as seen py js
          else (let locator_key = dict_get d ''type'' @ ''_'' @ dict_get d ''value''
                in if locator_key \<in> set seen then locators_loop as seen py js
                   else (case locator_lines d of
                           None \<Rightarrow> locators_loop as (locator_key # seen) py js
                         | Some (p, j) \<Rightarrow>
                             locators_loop as (locator_key # seen) (py @ [p]) (js @ [j]))))"

text \<open>The result is the pair \<^verbatim>\<open>(locators_python, locators_javascript)\<close>.\<close>

definition extract_locators_from_actions :: "action list \<Rightarrow> string \<times> string" where
  "extract_locators_from_actions actions =
     (let (py, js) = locators_loop actions [] [''class Locators:''] [''// Locators''];
          py' = (if length py = 1 then py @ [''    # No locators recorded''] else py)
      in (join [newline] py', join [newline] js))"

text \<open>The text of the end-to-end scenario: three lines.\<close>

definition scenario_code :: string where
  \<open>scenario_code =
     ''page.goto("https://x.test/login")'' @ [newline]
     @ ''page.get_by_test_id("submit-btn").click()'' @ [newline]
     @ ''page.locator("#email").fill("a@b.com")''\<close>

section \<open>JSON values and the Python operations on them\<close>

text \<open>
  What \<^verbatim>\<open>json.loads\<close> returns: \<^verbatim>\<open>None\<close>, a \<^verbatim>\<open>bool\<close>, an \<^verbatim>\<open>int\<close>, a \<^verbatim>\<open>str\<close>, a
  \<^verbatim>\<open>list\<close> or a \<^verbatim>\<open>dict\<close> with string keys. A dictionary is the list of its entries in
  insertion order, with distinct keys. Numbers with a fraction or an exponent (Python
  floats) are not part of the model.
\<close>

datatype json =
    JNull
  | JBool bool
  | JNum int
  | JStr string
  | JArr "json list"
  | JObj "(string \<times> json) list"

text \<open>Sequencing of computations that may raise.\<close>

definition and_then :: "'e + 'a \<Rightarrow> ('a \<Rightarrow> 'e + 'b) \<Rightarrow> 'e + 'b" where
  "and_then m f = (case m of Inl e \<Rightarrow> Inl e | Inr x \<Rightarrow> f x)"

text \<open>\<^verbatim>\<open>d[k] = v\<close> on the entries of a dictionary: an existing key keeps its place.\<close>

fun dict_set :: "string \<Rightarrow> json \<Rightarrow> (string \<times> json) list \<Rightarrow> (string \<times> json) list" where
  "dict_set k v [] = [(k, v)]"
| "dict_set k v (p # ps) = (if fst p = k then (k, v) # ps else p # dict_set k v ps)"

text \<open>\<^verbatim>\<open>x.get(k, default)\<close>: only a dictionary has the method.\<close>

definition py_get :: "json \<Rightarrow> string \<Rightarrow> json \<Rightarrow> py_error + json" where
  "py_get x k dflt =
     (case x of
        JObj kvs \<Rightarrow> Inr (case map_of kvs k of Some v \<Rightarrow> v | None \<Rightarrow> dflt)
      | _ \<Rightarrow> Inl AttributeError)"

text \<open>The truth value of \<^verbatim>\<open>x\<close> in \<^verbatim>\<open>if x\<close> and \<^verbatim>\<open>not x\<close>.\<close>

definition py_truthy :: "json \<Rightarrow> bool" where
  "py_truthy x =
     (case x of
        JNull \<Rightarrow> False
      | JBool b \<Rightarrow> b
      | JNum n \<Rightarrow> n \<noteq> 0
      | JStr s \<Rightarrow> s \<noteq> []
      | JArr xs \<Rightarrow> xs \<noteq> []
      | JObj kvs \<Rightarrow> kvs \<noteq> [])"

text \<open>\<^verbatim>\<open>for item in x\<close>: the items of a list, the characters of a string, the keys of a
  dictionary; anything else is not iterable.\<close>

definition py_iter :: "json \<Rightarrow> py_error + json list" where
  "py_iter x =
     (case x of
        JArr xs \<Rightarrow> Inr xs
      | JStr s \<Rightarrow> Inr (map (\<lambda>c. JStr [c]) s)
      | JObj kvs \<Rightarrow> Inr (map (\<lambda>kv. JStr (fst kv)) kvs)
      | _ \<Rightarrow> Inl TypeError)"

text \<open>\<^verbatim>\<open>len(x)\<close>.\<close>

definition py_len :: "json \<Rightarrow> py_error + nat" where
  "py_len x =
     (case x of
        JArr xs \<Rightarrow> Inr (length xs)
      | JStr s \<Rightarrow> Inr (length s)
      | JObj kvs \<Rightarrow> Inr (length kvs)
      | _ \<Rightarrow> Inl TypeError)"

text \<open>\<^verbatim>\<open>x[i]\<close> for an index \<open>i\<close> below \<^verbatim>\<open>len(x)\<close>: a dictionary with string keys has no
  integer key.\<close>

definition py_index :: "json \<Rightarrow> nat \<Rightarrow> py_error + json" where
  "py_index x i =
     (case x of
        JArr xs \<Rightarrow> Inr (xs ! i)
      | JStr s \<Rightarrow> Inr (JStr [s ! i])
      | JObj kvs \<Rightarrow> Inl KeyError
      | _ \<Rightarrow> Inl TypeError)"

text \<open>\<^verbatim>\<open>key in x\<close> for a string \<^verbatim>\<open>key\<close>: a key of a dictionary, an item of a list, a
  substring of a string; on anything else the test raises.\<close>

definition py_in :: "string \<Rightarrow> json \<Rightarrow> py_error + bool" where
  "py_in key x =
     (case x of
        JObj kvs \<Rightarrow> Inr (key \<in> fst ` set kvs)
      | JArr xs \<Rightarrow> Inr (JStr key \<in> set xs)
      | JStr s \<Rightarrow> Inr (contains key s)
      | _ \<Rightarrow> Inl TypeError)"

text \<open>\<^verbatim>\<open>all(key in x for key in keys)\<close>: stops at the first key that is absent.\<close>

fun py_all_in :: "string list \<Rightarrow> json \<Rightarrow> py_error + bool" where
  "py_all_in [] x = Inr True"
| "py_all_in (k # ks) x =
     (case py_in k x of
        Inl e \<Rightarrow> Inl e
      | Inr b \<Rightarrow> if b then py_all_in ks x else Inr False)"

subsection \<open>A reader and a writer of JSON text\<close>

text \<open>
  The library functions \<^verbatim>\<open>json.loads\<close> and \<^verbatim>\<open>json.dump\<close> are not code of the repository:
  the functions below take them as the parameters \<open>loads\<close> (with \<open>None\<close> for
  \<^verbatim>\<open>JSONDecodeError\<close>) and \<open>dumps\<close>. For evaluation on concrete texts, \<open>json_loads\<close> reads
  the JSON grammar of RFC 8259 without fractions, exponents and \<^verbatim>\<open>\u\<close> escapes, on
  which it answers \<open>None\<close>, and \<open>json_dumps\<close> writes a value with the separators
  \<^verbatim>\<open>", "\<close> and \<^verbatim>\<open>": "\<close>.
\<close>

definition json_ws :: "char \<Rightarrow> bool" where
  "json_ws c = (c = CHR '' '' \<or> c = CHR 0x09 \<or> c = CHR 0x0A \<or> c = CHR 0x0D)"

definition skip_ws :: "string \<Rightarrow> string" where
  "skip_ws s = dropWhile json_ws s"

definition unescape :: "char \<Rightarrow> char option" where
  "unescape e =
     (if e = dquote then Some dquote
      else if e = backslash then Some backslash
      else if e = CHR ''/'' then Some CHR ''/''
      else if e = CHR ''b'' then Some (CHR 0x08)
      else if e = CHR ''f'' then Some (CHR 0x0C)
      else if e = CHR ''n'' then Some (CHR 0x0A)
      else if e = CHR ''r'' then Some (CHR 0x0D)
      else if e = CHR ''t'' then Some (CHR 0x09)
      else None)"

text \<open>The rest of a string literal after its opening quote: the characters, and the text
  after the closing quote.\<close>

fun read_string :: "string \<Rightarrow> string \<Rightarrow> (string \<times> string) option" where
  "read_string acc [] = None"
| "read_string acc [c] = (if c = dquote then Some (rev acc, []) else None)"
| "read_string acc (c # e # cs) =
     (if c = dquote then Some (rev acc, e # cs)
      else if c = backslash
      then (case unescape e of None \<Rightarrow> None | Some ch \<Rightarrow> read_string (ch # acc) cs)
      else if (of_char c :: nat) < 32 then None
      else read_string (c # acc) (e # cs))"

definition is_digit :: "char \<Rightarrow> bool" where
  "is_digit c = (48 \<le> (of_char c :: nat) \<and> (of_char c :: nat) \<le> 57)"

definition digits_value :: "string \<Rightarrow> int" where
  "digits_value ds = foldl (\<lambda>n c. 10 * n + (int (of_char c) - 48)) 0 ds"

text \<open>An integer literal: an optional minus sign, then \<^verbatim>\<open>0\<close> or digits that do not start
  with \<^verbatim>\<open>0\<close>.\<close>

definition read_number :: "string \<Rightarrow> (json \<times> string) option" where
  "read_number s =
     (let neg = (s \<noteq> [] \<and> hd s = CHR ''-'');
          r = (if neg then tl s else s);
          ds = takeWhile is_digit r;
          rest = dropWhile is_digit r
      in if ds = [] \<or> (hd ds = CHR ''0'' \<and> length ds > 1) then None
         else if rest \<noteq> [] \<and> hd rest \<in> {CHR ''.'', CHR ''e'', CHR ''E''} then None
         else Some (JNum (if neg then - digits_value ds else digits_value ds), rest))"

text \<open>The recursive descent, with a bound on the number of calls; every call consumes a
  character, so the length of the text is enough.\<close>

fun read_value :: "nat \<Rightarrow> string \<Rightarrow> (json \<times> string) option"
  and read_items :: "nat \<Rightarrow> json list \<Rightarrow> string \<Rightarrow> (json \<times> string) option"
  and read_members :: "nat \<Rightarrow> (string \<times> json) list \<Rightarrow> string \<Rightarrow> (json \<times> string) option"
where
  "read_value 0 s = None"
| "read_value (Suc n) s =
     (case skip_ws s of
        [] \<Rightarrow> None
      | c # cs \<Rightarrow>
          if c = CHR ''{''
          then (case skip_ws cs of
                  [] \<Rightarrow> None
                | d # ds \<Rightarrow> if d = CHR ''}'' then Some (JObj [], ds)
                            else read_members n [] (d # ds))
          else if c = CHR ''[''
          then (case skip_ws cs of
                  [] \<Rightarrow> None
                | d # ds \<Rightarrow> if d = CHR '']'' then Some (JArr [], ds)
                            else read_items n [] (d # ds))
          else if c = dquote
          then map_option (\<lambda>(str, rest). (JStr str, rest)) (read_string [] cs)
          else if prefix ''null'' (c # cs) then Some (JNull, drop 4 (c # cs))
          else if prefix ''true'' (c # cs) then Some (JBool True, drop 4 (c # cs))
          else if prefix ''false'' (c # cs) then Some (JBool False, drop 5 (c # cs))
          else read_number (c # cs))"
| "read_items 0 acc s = None"
| "read_items (Suc n) acc s =
     (case read_value n s of
        None \<Rightarrow> None
      | Some (v, rest) \<Rightarrow>
          (case skip_ws rest of
             [] \<Rightarrow> None
           | c # cs \<Rightarrow>
               if c = CHR '','' then read_items n (acc @ [v]) cs
               else if c = CHR '']'' then Some (JArr (acc @ [v]), cs)
               else None))"
| "read_members 0 acc s = None"
| "read_members (Suc n) acc s =
     (case skip_ws s of
        [] \<Rightarrow> None
      | q # qs \<Rightarrow>
          if q \<noteq> dquote then None
          else (case read_string [] qs of
                  None \<Rightarrow> None
                | Some (k, r1) \<Rightarrow>
                    (case skip_ws r1 of
                       [] \<Rightarrow> None
                     | c # r2 \<Rightarrow>
                         if c \<noteq> CHR '':'' then None
                         else (case read_value n r2 of
                                 None \<Rightarrow> None
                               | Some (v, r3) \<Rightarrow>
                                   (case skip_ws r3 of
                                      [] \<Rightarrow> None
                                    | d # r4 \<Rightarrow>
                                        if d = CHR '','' then read_members n (dict_set k v acc) r4
                                        else if d = CHR ''}''
                                        then Some (JObj (dict_set k v acc), r4)
                                        else None)))))"

definition json_loads :: "string \<Rightarrow> json option" where
  "json_loads s =
     (case read_value (Suc (length s)) s of
        None \<Rightarrow> None
      | Some (v, rest) \<Rightarrow> if skip_ws rest = [] then Some v else None)"

definition escape_char :: "char \<Rightarrow> string" where
  "escape_char c =
     (if c = dquote then [backslash, dquote]
      else if c = backslash then [backslash, backslash]
      else if c = CHR 0x0A then [backslash, CHR ''n'']
      else if c = CHR 0x0D then [backslash, CHR ''r'']
      else if c = CHR 0x09 then [backslash, CHR ''t'']
      else if c = CHR 0x08 then [backslash, CHR ''b'']
      else if c = CHR 0x0C then [backslash, CHR ''f'']
      else [c])"

definition write_string :: "string \<Rightarrow> string" where
  "write_string s = [dquote] @ concat (map escape_char s) @ [dquote]"

definition show_int :: "int \<Rightarrow> string" where
  "show_int n = (if n < 0 then ''-'' @ show_nat (nat (- n)) else show_nat (nat n))"

fun json_dumps :: "json \<Rightarrow> string" where
  "json_dumps JNull = ''null''"
| "json_dumps (JBool b) = (if b then ''true'' else ''false'')"
| "json_dumps (JNum n) = show_int n"
| "json_dumps (JStr s) = write_string s"
| "json_dumps (JArr xs) = ''['' @ join '', '' (map json_dumps xs) @ '']''"
| "json_dumps (JObj kvs) =
     ''{'' @ join '', '' (map (\<lambda>kv. write_string (fst kv) @ '': '' @ json_dumps (snd kv)) kvs) @ ''}''"

section \<open>Extraction of the JSON object from the model output\<close>

text \<open>
  \<^verbatim>\<open>generate_test_cases\<close>, \<^verbatim>\<open>generate_test_cases_with_additional_info\<close> and
  \<^verbatim>\<open>regenerate_test_cases_with_feedback\<close> contain the same block: find the first
  \<^verbatim>\<open>{\<close>, scan from it with a brace counter, a flag for being inside a string and a
  flag for the character after a backslash, and stop where the counter is back at zero.
  The loop over \<^verbatim>\<open>enumerate(generation_output[start:], start)\<close> returns the final
  \<^verbatim>\<open>(end, brace_count)\<close>.
\<close>

fun scan_braces :: "string \<Rightarrow> nat \<Rightarrow> int \<Rightarrow> bool \<Rightarrow> bool \<Rightarrow> nat \<Rightarrow> nat \<times> int" where
  "scan_braces [] i brace_count in_string escape_next endpos = (endpos, brace_count)"
| "scan_braces (c # cs) i brace_count in_string escape_next endpos =
     (if escape_next then scan_braces cs (Suc i) brace_count in_string False endpos
      else if c = backslash then scan_braces cs (Suc i) brace_count in_string True endpos
      else if c = dquote then scan_braces cs (Suc i) brace_count (\<not> in_string) False endpos
      else if \<not> in_string
      then (if c = CHR ''{''
            then scan_braces cs (Suc i) (brace_count + 1) in_string False endpos
            else if c = CHR ''}''
            then (if brace_count - 1 = 0 then (Suc i, brace_count - 1)
                  else scan_braces cs (Suc i) (brace_count - 1) in_string False endpos)
            else scan_braces cs (Suc i) brace_count in_string False endpos)
      else scan_braces cs (Suc i) brace_count in_string False endpos)"

text \<open>The text \<^verbatim>\<open>json_str\<close> that is handed to the parser when the counter ends at zero;
  \<open>None\<close> when there is no \<^verbatim>\<open>{\<close> or the counter does not return to zero.\<close>

definition extract_json_str :: "string \<Rightarrow> string option" where
  "extract_json_str generation_output =
     (let start = str_find generation_output ''{'' 0
      in if start \<noteq> - 1
         then (let (endpos, brace_count) =
                     scan_braces (str_from generation_output start) (nat start) 0 False False
                       (nat start)
               in if brace_count = 0
                  then Some (str_slice generation_output start (int endpos))
                  else None)
         else None)"

text \<open>The value of \<^verbatim>\<open>data\<close>, or \<open>None\<close> where \<^verbatim>\<open>json.loads\<close> raises
  \<^verbatim>\<open>JSONDecodeError\<close>.\<close>

definition parse_generation_output :: "(string \<Rightarrow> json option) \<Rightarrow> string \<Rightarrow> json option" where
  "parse_generation_output loads generation_output =
     (case extract_json_str generation_output of
        Some json_str \<Rightarrow> loads json_str
      | None \<Rightarrow> loads generation_output)"

subsection \<open>The array fallback of \<^verbatim>\<open>generate_test_cases\<close>\<close>

text \<open>
  \<^verbatim>\<open>re.search(r"(\[\s*\{.*?\}\s*\])", raw, re.DOTALL)\<close>: the leftmost position where a
  \<^verbatim>\<open>[\<close>, white space and a \<^verbatim>\<open>{\<close> are followed, after as few characters as possible, by
  a \<^verbatim>\<open>}\<close>, white space and a \<^verbatim>\<open>]\<close>. White space cannot be given back to a later part
  of the pattern, so each \<^verbatim>\<open>\s*\<close> takes all of it.
\<close>

fun lazy_close :: "string \<Rightarrow> string option" where
  "lazy_close [] = None"
| "lazy_close (c # cs) =
     (if c = CHR ''}'' \<and> prefix '']'' (dropWhile is_space cs)
      then Some (c # takeWhile is_space cs @ '']'')
      else map_option ((#) c) (lazy_close cs))"

definition match_array_at :: "string \<Rightarrow> string option" where
  "match_array_at s =
     (if prefix ''['' s \<and> prefix ''{'' (dropWhile is_space (tl s))
      then map_option (\<lambda>m. ''['' @ takeWhile is_space (tl s) @ ''{'' @ m)
             (lazy_close (tl (dropWhile is_space (tl s))))
      else None)"

fun search_array :: "string \<Rightarrow> string option" where
  "search_array [] = None"
| "search_array (c # cs) =
     (case match_array_at (c # cs) of
        Some m \<Rightarrow> Some m
      | None \<Rightarrow> search_array cs)"

section \<open>The caches\<close>

text \<open>
  The file system is a map from a path to the text of the file, with the set of paths
  that \<^verbatim>\<open>open(path, 'w')\<close> accepts: opening fails, for instance, for a file name of
  more than 255 characters. Directories are not modelled. \<^verbatim>\<open>os.path.join\<close> is the POSIX
  one.
\<close>

record files =
  file_text :: "string \<rightharpoonup> string"
  can_write :: "string \<Rightarrow> bool"

text \<open>\<^verbatim>\<open>with open(path, 'w') as f: json.dump(data, f)\<close> inside \<^verbatim>\<open>try\<close>, with a handler
  that only prints a warning: a failed \<^verbatim>\<open>open\<close> leaves the files as they are.\<close>

definition try_write :: "files \<Rightarrow> string \<Rightarrow> string \<Rightarrow> files" where
  "try_write fs path text =
     (if can_write fs path then fs\<lparr>file_text := (file_text fs)(path \<mapsto> text)\<rparr> else fs)"


definition path_join :: "string \<Rightarrow> string \<Rightarrow> string" where
  "path_join a b =
     (if prefix ''/'' b then b
      else if a = [] \<or> last a = CHR ''/'' then a @ b
      else a @ ''/'' @ b)"

subsection \<open>\<^verbatim>\<open>features/testCaseGeneration/generator.py\<close>\<close>

definition CACHE_DIR :: string where
  "CACHE_DIR = ''testcaseGenerated''"

definition get_cache_file_path :: "string \<Rightarrow> string" where
  "get_cache_file_path ticket_id =
     (let safe_ticket_id = replace [backslash] ''_'' (replace ''/'' ''_'' ticket_id)
      in path_join CACHE_DIR (safe_ticket_id @ ''_test_case.json''))"


definition save_test_cases_to_cache ::
  "(json \<Rightarrow> string) \<Rightarrow> files \<Rightarrow> string \<Rightarrow> json \<Rightarrow> files" where
  "save_test_cases_to_cache dumps fs ticket_id test_cases_data =
     try_write fs (get_cache_file_path ticket_id) (dumps test_cases_data)"

subsection \<open>\<^verbatim>\<open>features/codeGenerator/generator.py\<close>\<close>

definition CODE_CACHE_DIR :: string where
  "CODE_CACHE_DIR = ''codeGenerated''"

text \<open>\<^verbatim>\<open>ticket_id\<close> is optional; \<^verbatim>\<open>if ticket_id\<close> is false for \<^verbatim>\<open>None\<close> and for the
  empty string.\<close>

definition get_code_cache_file_path :: "string \<Rightarrow> string option \<Rightarrow> string" where
  "get_code_cache_file_path test_case_id ticket_id =
     (let safe_test_case_id =
            replace '' '' ''_'' (replace [backslash] ''_'' (replace ''/'' ''_'' test_case_id));
          filename =
            (case ticket_id of
               None \<Rightarrow> safe_test_case_id @ ''_code.json''
             | Some t \<Rightarrow>
                 if t = [] then safe_test_case_id @ ''_code.json''
                 else replace [backslash] ''_'' (replace ''/'' ''_'' t) @ ''_''
                        @ safe_test_case_id @ ''_code.json'')
      in path_join CODE_CACHE_DIR filename)"




subsection \<open>Ticket ids\<close>

text \<open>
  The ticket id of a cache comes from \<^verbatim>\<open>extract_ticket_id\<close>, which returns the first match
  of the pattern \<^verbatim>\<open>[A-Z]+-\d+\<close> in the feature text: upper-case letters, a hyphen,
  digits.
\<close>

definition is_upper :: "char \<Rightarrow> bool" where
  "is_upper c = (65 \<le> (of_char c :: nat) \<and> (of_char c :: nat) \<le> 90)"

definition is_ticket_id :: "string \<Rightarrow> bool" where
  "is_ticket_id t =
     (let letters = takeWhile is_upper t; rest = dropWhile is_upper t
      in letters \<noteq> [] \<and> rest \<noteq> [] \<and> hd rest = CHR ''-''
         \<and> tl rest \<noteq> [] \<and> list_all is_digit (tl rest))"

section \<open>The test-case response normalizer\<close>

text \<open>
  The functions of \<^verbatim>\<open>features/testCaseGeneration/generator.py\<close> from the point where the
  model has answered: \<open>raw\<close> is \<^verbatim>\<open>str(result)\<close> and \<open>generation_output\<close> the text chosen
  from the result. They return the tuple \<^verbatim>\<open>(df, raw, error, formatted_test_cases,
  context_data)\<close>, which is one of the cases of \<open>gen_result\<close>, and the file system after
  the cache write. The data frame is given by the rows it is built from. Its method
  \<^verbatim>\<open>to_dict('records')\<close>, which the array fallback calls and which may change values (an
  integer beside a null comes back as a float), is the parameter \<open>to_records\<close>.
\<close>

record step_row =
  Step :: json
  Expected_Result :: json

record test_case =
  tc_id :: json
  tc_title :: json
  tc_steps :: "step_row list"

record context_data =
  ctx_ticket_id :: string
  jira_key :: string
  jira_project :: string
  jira_summary :: string
  jira_description :: string
  validation_result :: json
  questions :: json

text \<open>
  \<^item> \<open>Generated rows tcs\<close>: the data frame of \<open>rows\<close>, no error, the formatted test cases;
  \<^item> \<open>NotSuitable notes\<close>: \<^verbatim>\<open>"Jira ticket is not suitable for test case generation: ..."\<close>;
  \<^item> \<open>NeedsMoreInfo notes ctx\<close>: \<^verbatim>\<open>"NEEDS_MORE_INFO:..."\<close> with the context;
  \<^item> \<open>NoTestCases msg\<close>: the fixed message \<open>msg\<close>;
  \<^item> \<open>UnknownStatus status\<close>: \<^verbatim>\<open>"Unknown status: ..."\<close>;
  \<^item> \<open>UnexpectedStatus status\<close>: \<^verbatim>\<open>"Unexpected status: ... Expected 'ready'. ..."\<close>;
  \<^item> \<open>InvalidJson\<close>: \<^verbatim>\<open>"Model did not return valid JSON. ..."\<close>;
  \<^item> \<open>GenerationError e\<close>: the outer handler, \<^verbatim>\<open>"Error generating test cases: ..."\<close>.
\<close>

datatype gen_result =
    Generated "step_row list" "test_case list"
  | NotSuitable json
  | NeedsMoreInfo json context_data
  | NoTestCases string
  | UnknownStatus json
  | UnexpectedStatus json
  | InvalidJson
  | GenerationError py_error

text \<open>A loop that appends one result per item and stops at the first exception.\<close>

fun for_each :: "('a \<Rightarrow> py_error + 'b) \<Rightarrow> 'a list \<Rightarrow> py_error + 'b list" where
  "for_each f [] = Inr []"
| "for_each f (x # xs) =
     (case f x of
        Inl e \<Rightarrow> Inl e
      | Inr y \<Rightarrow> (case for_each f xs of Inl e \<Rightarrow> Inl e | Inr ys \<Rightarrow> Inr (y # ys)))"

text \<open>\<^verbatim>\<open>expected_results[i] if i < len(expected_results) else ""\<close>.\<close>

definition expected_result_at :: "json \<Rightarrow> nat \<Rightarrow> py_error + json" where
  "expected_result_at expected_results i =
     and_then (py_len expected_results)
       (\<lambda>n. if i < n then py_index expected_results i else Inr (JStr []))"

text \<open>\<^verbatim>\<open>for i, step in enumerate(steps)\<close>, from index \<open>i\<close>.\<close>

fun format_steps :: "json list \<Rightarrow> nat \<Rightarrow> json \<Rightarrow> py_error + step_row list" where
  "format_steps [] i expected_results = Inr []"
| "format_steps (step # steps) i expected_results =
     (case expected_result_at expected_results i of
        Inl e \<Rightarrow> Inl e
      | Inr r \<Rightarrow>
          (case format_steps steps (Suc i) expected_results of
             Inl e \<Rightarrow> Inl e
           | Inr rows \<Rightarrow> Inr (\<lparr>Step = step, Expected_Result = r\<rparr> # rows)))"

text \<open>The body of \<^verbatim>\<open>for tc in test_cases\<close>; the three functions have the same one.\<close>

definition format_test_case :: "json \<Rightarrow> py_error + test_case" where
  "format_test_case tc =
     and_then (py_get tc ''id'' (JStr [])) (\<lambda>tid.
     and_then (py_get tc ''title'' (JStr ''Untitled'')) (\<lambda>title.
     and_then (py_get tc ''steps'' (JArr [])) (\<lambda>steps.
     and_then (py_get tc ''expected_results'' (JArr [])) (\<lambda>expected_results.
     and_then (py_iter steps) (\<lambda>items.
     and_then (format_steps items 0 expected_results) (\<lambda>formatted_steps.
       Inr \<lparr>tc_id = tid, tc_title = title, tc_steps = formatted_steps\<rparr>))))))"

definition format_test_cases :: "json \<Rightarrow> py_error + test_case list" where
  "format_test_cases test_cases = and_then (py_iter test_cases) (for_each format_test_case)"

definition all_rows :: "test_case list \<Rightarrow> step_row list" where
  "all_rows tcs = concat (map tc_steps tcs)"

text \<open>The outer \<^verbatim>\<open>except Exception\<close>.\<close>

definition or_generation_error :: "files \<Rightarrow> py_error + gen_result \<times> files \<Rightarrow> gen_result \<times> files" where
  "or_generation_error fs r = (case r of Inl e \<Rightarrow> (GenerationError e, fs) | Inr x \<Rightarrow> x)"

text \<open>The text of the questions is built only when the list is not empty.\<close>

definition questions_text :: "json \<Rightarrow> py_error + unit" where
  "questions_text qs = (if py_truthy qs then and_then (py_iter qs) (\<lambda>_. Inr ()) else Inr ())"

subsection \<open>\<^verbatim>\<open>generate_test_cases\<close>\<close>

text \<open>The handler of \<^verbatim>\<open>JSONDecodeError\<close>: the old format, an array of steps.\<close>

definition fallback_row :: "json \<Rightarrow> py_error + step_row" where
  "fallback_row item =
     and_then (py_get item ''step'' (JStr [])) (\<lambda>s.
     and_then (py_get item ''expected_result'' (JStr [])) (\<lambda>r.
       Inr \<lparr>Step = s, Expected_Result = r\<rparr>))"

definition array_fallback ::
  "(string \<Rightarrow> json option) \<Rightarrow> (json \<Rightarrow> string) \<Rightarrow> (step_row list \<Rightarrow> step_row list)
     \<Rightarrow> files \<Rightarrow> string \<Rightarrow> string \<Rightarrow> gen_result \<times> files" where
  "array_fallback loads dumps to_records fs ticket_id raw =
     (case search_array raw of
        None \<Rightarrow> (InvalidJson, fs)
      | Some m \<Rightarrow>
          or_generation_error fs
            (case loads m of
               None \<Rightarrow> Inl JSONDecodeError
             | Some data \<Rightarrow>
                 and_then (py_iter data) (\<lambda>items.
                 and_then (for_each fallback_row items) (\<lambda>rows.
                   let formatted_test_cases =
                         [\<lparr>tc_id = JStr ''TC-01'', tc_title = JStr ''Test Case 1'',
                           tc_steps = to_records rows\<rparr>];
                       cache_data =
                         JObj [(''status'', JStr ''ready''),
                               (''notes'', JStr ''Test cases generated (fallback format)''),
                               (''test_cases'',
                                  JArr [JObj [(''id'', JStr ''TC-01''),
                                              (''title'', JStr ''Test Case 1''),
                                              (''steps'', JArr (map Step rows)),
                                              (''expected_results'',
                                                 JArr (map Expected_Result rows))]])]
                   in Inr (Generated rows formatted_test_cases,
                           save_test_cases_to_cache dumps fs ticket_id cache_data)))))"

definition generate_test_cases ::
  "(string \<Rightarrow> json option) \<Rightarrow> (json \<Rightarrow> string) \<Rightarrow> (step_row list \<Rightarrow> step_row list)
     \<Rightarrow> files \<Rightarrow> context_data \<Rightarrow> string \<Rightarrow> string \<Rightarrow> gen_result \<times> files" where
  "generate_test_cases loads dumps to_records fs ctx raw generation_output =
     (case parse_generation_output loads generation_output of
        None \<Rightarrow> array_fallback loads dumps to_records fs (ctx_ticket_id ctx) raw
      | Some data \<Rightarrow>
          or_generation_error fs
            (and_then (py_get data ''status'' (JStr [])) (\<lambda>status.
               if status = JStr ''invalid''
               then and_then (py_get data ''notes'' (JStr ''Invalid ticket''))
                      (\<lambda>notes. Inr (NotSuitable notes, fs))
               else if status = JStr ''needs_more_info''
               then and_then (py_get data ''questions'' (JArr [])) (\<lambda>qs.
                    and_then (questions_text qs) (\<lambda>_.
                    and_then (py_get data ''notes'' (JStr [])) (\<lambda>notes.
                      Inr (NeedsMoreInfo notes
                             (ctx\<lparr>validation_result := data, questions := qs\<rparr>), fs))))
               else if status = JStr ''ready''
               then and_then (py_get data ''test_cases'' (JArr [])) (\<lambda>test_cases.
                      if \<not> py_truthy test_cases
                      then Inr (NoTestCases ''No test cases generated despite ready status.'', fs)
                      else and_then (format_test_cases test_cases) (\<lambda>formatted_test_cases.
                           and_then (py_get data ''notes'' (JStr [])) (\<lambda>notes.
                             let cache_data =
                                   JObj [(''status'', JStr ''ready''), (''notes'', notes),
                                         (''test_cases'', test_cases)]
                             in Inr (Generated (all_rows formatted_test_cases)
                                       formatted_test_cases,
                                     save_test_cases_to_cache dumps fs (ctx_ticket_id ctx)
                                       cache_data))))
               else Inr (UnknownStatus status, fs))))"

subsection \<open>\<^verbatim>\<open>generate_test_cases_with_additional_info\<close>\<close>

text \<open>No array fallback here; the cache is written only for a non-empty ticket id.\<close>

definition generate_test_cases_with_additional_info ::
  "(string \<Rightarrow> json option) \<Rightarrow> (json \<Rightarrow> string) \<Rightarrow> files \<Rightarrow> context_data \<Rightarrow> string
     \<Rightarrow> gen_result \<times> files" where
  "generate_test_cases_with_additional_info loads dumps fs ctx generation_output =
     (case parse_generation_output loads generation_output of
        None \<Rightarrow> (InvalidJson, fs)
      | Some data \<Rightarrow>
          or_generation_error fs
            (and_then (py_get data ''status'' (JStr [])) (\<lambda>status.
               if status = JStr ''invalid''
               then and_then (py_get data ''notes'' (JStr ''Invalid ticket''))
                      (\<lambda>notes. Inr (NotSuitable notes, fs))
               else if status = JStr ''needs_more_info''
               then and_then (py_get data ''questions'' (JArr [])) (\<lambda>qs.
                    and_then (questions_text qs) (\<lambda>_.
                    and_then (py_get data ''notes'' (JStr [])) (\<lambda>notes.
                      Inr (NeedsMoreInfo notes
                             (ctx\<lparr>validation_result := data, questions := qs\<rparr>), fs))))
               else if status = JStr ''ready''
               then and_then (py_get data ''test_cases'' (JArr [])) (\<lambda>test_cases.
                      if \<not> py_truthy test_cases
                      then Inr (NoTestCases ''No test cases generated despite ready status.'', fs)
                      else and_then (format_test_cases test_cases) (\<lambda>formatted_test_cases.
                           and_then (py_get data ''notes'' (JStr [])) (\<lambda>notes.
                             let cache_data =
                                   JObj [(''status'', JStr ''ready''), (''notes'', notes),
                                         (''test_cases'', test_cases)]
                             in Inr (Generated (all_rows formatted_test_cases)
                                       formatted_test_cases,
                                     if ctx_ticket_id ctx \<noteq> []
                                     then save_test_cases_to_cache dumps fs (ctx_ticket_id ctx)
                                            cache_data
                                     else fs))))
               else Inr (UnknownStatus status, fs))))"

subsection \<open>\<^verbatim>\<open>regenerate_test_cases_with_feedback\<close>\<close>

text \<open>The test cases are written to the cache in the original format, rebuilt from the
  formatted ones.\<close>

definition cache_test_case :: "test_case \<Rightarrow> json" where
  "cache_test_case tc =
     JObj [(''id'', tc_id tc), (''title'', tc_title tc),
           (''steps'', JArr (map Step (tc_steps tc))),
           (''expected_results'', JArr (map Expected_Result (tc_steps tc)))]"

text \<open>\<open>cache_ticket_id\<close> is \<^verbatim>\<open>ticket_id if ticket_id else
  extract_ticket_id(original_feature_text)\<close>, \<open>None\<close> where that is \<^verbatim>\<open>None\<close> or empty.\<close>

definition regenerate_test_cases_with_feedback ::
  "(string \<Rightarrow> json option) \<Rightarrow> (json \<Rightarrow> string) \<Rightarrow> files \<Rightarrow> string option \<Rightarrow> string
     \<Rightarrow> gen_result \<times> files" where
  "regenerate_test_cases_with_feedback loads dumps fs cache_ticket_id generation_output =
     (case parse_generation_output loads generation_output of
        None \<Rightarrow> (InvalidJson, fs)
      | Some data \<Rightarrow>
          or_generation_error fs
            (and_then (py_get data ''status'' (JStr [])) (\<lambda>status.
               if status = JStr ''ready''
               then and_then (py_get data ''test_cases'' (JArr [])) (\<lambda>test_cases.
                      if \<not> py_truthy test_cases
                      then Inr (NoTestCases ''No test cases generated.'', fs)
                      else and_then (format_test_cases test_cases) (\<lambda>formatted_test_cases.
                           and_then
                             (py_get data ''notes''
                                (JStr ''Test cases regenerated based on user feedback''))
                             (\<lambda>notes.
                             let cache_data =
                                   JObj [(''status'', JStr ''ready''), (''notes'', notes),
                                         (''test_cases'',
                                            JArr (map cache_test_case formatted_test_cases))]
                             in Inr (Generated (all_rows formatted_test_cases)
                                       formatted_test_cases,
                                     case cache_ticket_id of
                                       None \<Rightarrow> fs
                                     | Some t \<Rightarrow>
                                         if t = [] then fs
                                         else save_test_cases_to_cache dumps fs t cache_data))))
               else Inr (UnexpectedStatus status, fs))))"

section \<open>\<^verbatim>\<open>parse_code_json\<close> of \<^verbatim>\<open>features/codeGenerator/generator.py\<close>\<close>

text \<open>\<^verbatim>\<open>s.rfind(sub)\<close>: the index of the last occurrence, or \<open>-1\<close>.\<close>

definition str_rfind :: "string \<Rightarrow> string \<Rightarrow> int" where
  "str_rfind s sub =
     (let k = find_at (rev sub) (rev s) 0
      in if k < 0 then - 1 else int (length s) - k - int (length sub))"

definition fence :: string where
  "fence = [CHR 0x60, CHR 0x60, CHR 0x60]"

text \<open>The text that is handed to \<^verbatim>\<open>json.loads\<close>: the content of the first code fence, or
  the span from the first \<^verbatim>\<open>{\<close> to the last \<^verbatim>\<open>}\<close>, or the whole output.\<close>

definition code_json_str :: "string \<Rightarrow> string" where
  "code_json_str raw_output =
     (if contains (fence @ ''json'') raw_output
      then (let start = str_find raw_output (fence @ ''json'') 0 + 7;
                endpos = str_find raw_output fence start
            in strip (str_slice raw_output start endpos))
      else if contains fence raw_output
      then (let start = str_find raw_output fence 0 + 3;
                endpos = str_find raw_output fence start;
                json_str = strip (str_slice raw_output start endpos)
            in if prefix ''json'' json_str then strip (drop 4 json_str) else json_str)
      else (let start = str_find raw_output ''{'' 0;
                endpos = str_rfind raw_output ''}'' + 1
            in if start \<ge> 0 \<and> endpos > start then str_slice raw_output start endpos
               else raw_output))"

definition required_keys :: "string list" where
  "required_keys = [''locators'', ''reusable_functions'', ''test_functions'', ''cursor_prompt'']"

text \<open>The rewrite of the retry.\<close>

definition strip_trailing_commas :: "string \<Rightarrow> string" where
  "strip_trailing_commas json_str =
     replace ('','' @ [newline] @ '']'') ([newline] @ '']'')
       (replace ('','' @ [newline] @ ''}'') ([newline] @ ''}'') json_str)"

text \<open>\<^verbatim>\<open>if all(key in parsed for key in required_keys): return parsed\<close>; an exception of
  the test ends in \<^verbatim>\<open>return None\<close> on both paths.\<close>

definition validated :: "json \<Rightarrow> json option" where
  "validated parsed =
     (case py_all_in required_keys parsed of
        Inl e \<Rightarrow> None
      | Inr b \<Rightarrow> if b then Some parsed else None)"

definition parse_code_json :: "(string \<Rightarrow> json option) \<Rightarrow> string \<Rightarrow> json option" where
  "parse_code_json loads raw_output =
     (let json_str = code_json_str raw_output
      in case loads json_str of
           Some parsed \<Rightarrow> validated parsed
         | None \<Rightarrow>
             (case loads (strip_trailing_commas json_str) of
                Some parsed \<Rightarrow> validated parsed
              | None \<Rightarrow> None))"

section \<open>The lexical shape of a text with balanced braces\<close>

text \<open>
  The inputs that the brace scan is meant for, given by their structure rather than by the
  scan: a text is a sequence of tokens, where a token is a character other than a double
  quote, a backslash and a brace; a backslash with the character after it; a string
  literal, whose items are characters other than a double quote and a backslash, or a
  backslash with the character after it; or a pair of braces around a sequence of tokens.
  The text of a JSON object is one token of the last kind: its string literals are the
  quoted tokens, its nested objects are the braced tokens, and brackets, colons, commas,
  digits, letters and white space are plain characters.
\<close>

datatype sitem = Ch char | Esc char

datatype tok = Plain char | Escaped char | Quoted "sitem list" | Braced "tok list"

fun render_sitem :: "sitem \<Rightarrow> string" where
  "render_sitem (Ch c) = [c]"
| "render_sitem (Esc c) = [backslash, c]"

fun render :: "tok \<Rightarrow> string" where
  "render (Plain c) = [c]"
| "render (Escaped c) = [backslash, c]"
| "render (Quoted items) = [dquote] @ concat (map render_sitem items) @ [dquote]"
| "render (Braced ts) = ''{'' @ concat (map render ts) @ ''}''"

fun wf_sitem :: "sitem \<Rightarrow> bool" where
  "wf_sitem (Ch c) = (c \<noteq> dquote \<and> c \<noteq> backslash)"
| "wf_sitem (Esc c) = True"

fun wf_tok :: "tok \<Rightarrow> bool" where
  "wf_tok (Plain c) = (c \<noteq> dquote \<and> c \<noteq> backslash \<and> c \<noteq> CHR ''{'' \<and> c \<noteq> CHR ''}'')"
| "wf_tok (Escaped c) = True"
| "wf_tok (Quoted items) = list_all wf_sitem items"
| "wf_tok (Braced ts) = list_all wf_tok ts"

subsection \<open>The tokens of the text that \<open>json_dumps\<close> writes\<close>

definition sitem_of :: "char \<Rightarrow> sitem" where
  "sitem_of c =
     (if c = dquote then Esc dquote
      else if c = backslash then Esc backslash
      else if c = CHR 0x0A then Esc CHR ''n''
      else if c = CHR 0x0D then Esc CHR ''r''
      else if c = CHR 0x09 then Esc CHR ''t''
      else if c = CHR 0x08 then Esc CHR ''b''
      else if c = CHR 0x0C then Esc CHR ''f''
      else Ch c)"

fun join_tokens :: "tok list \<Rightarrow> tok list list \<Rightarrow> tok list" where
  "join_tokens sep [] = []"
| "join_tokens sep [x] = x"
| "join_tokens sep (x # y # ys) = x @ sep @ join_tokens sep (y # ys)"

fun tokens_of :: "json \<Rightarrow> tok list" where
  "tokens_of JNull = map Plain ''null''"
| "tokens_of (JBool b) = map Plain (if b then ''true'' else ''false'')"
| "tokens_of (JNum n) = map Plain (show_int n)"
| "tokens_of (JStr s) = [Quoted (map sitem_of s)]"
| "tokens_of (JArr xs) =
     [Plain CHR ''[''] @ join_tokens (map Plain '', '') (map tokens_of xs) @ [Plain CHR '']'']"
| "tokens_of (JObj kvs) =
     [Braced (join_tokens (map Plain '', '')
        (map (\<lambda>kv. [Quoted (map sitem_of (fst kv))] @ map Plain '': '' @ tokens_of (snd kv))
           kvs))]"

section \<open>Example inputs\<close>

text \<open>No files, every path writable; and no files, with the limit of 255 characters on a
  file name.\<close>

definition example_files :: files where
  "example_files = \<lparr>file_text = Map.empty, can_write = (\<lambda>path. True)\<rparr>"



definition example_context :: context_data where
  "example_context =
     \<lparr>ctx_ticket_id = ''PAN-1'', jira_key = ''PAN-1'', jira_project = ''PAN'',
      jira_summary = ''Login'', jira_description = ''As a user I can log in'',
      validation_result = JNull, questions = JNull\<rparr>"

text \<open>A \<^verbatim>\<open>ready\<close> answer in prose, with three steps and one expected result.\<close>

definition example_ready_output :: string where
  \<open>example_ready_output =
     ''Sure: {"status": "ready", "test_cases": [{"id": "TC-01", "title": "t", "steps": ["a", "b", "c"], "expected_results": ["x"]}]} done''\<close>

definition example_empty_ready_output :: string where
  \<open>example_empty_ready_output = ''{"status": "ready", "test_cases": []}''\<close>

definition example_needs_info_output :: string where
  \<open>example_needs_info_output =
     ''{"status": "needs_more_info", "notes": "x", "questions": ["what browser?"]}''\<close>

text \<open>The tokens of the object text \<^verbatim>\<open>{"a": "}\"", "b": {}}\<close>.\<close>

definition example_object :: tok where
  "example_object =
     Braced [Quoted [Ch CHR ''a''], Plain CHR '':'', Plain CHR '' '',
             Quoted [Ch CHR ''}'', Esc dquote], Plain CHR '','', Plain CHR '' '',
             Quoted [Ch CHR ''b''], Plain CHR '':'', Plain CHR '' '', Braced []]"


definition example_key_list :: string where
  \<open>example_key_list =
     ''["locators", "reusable_functions", "test_functions", "cursor_prompt"]''\<close>

definition example_code_object :: json where
  "example_code_object =
     JObj [(''locators'', JNum 1), (''reusable_functions'', JNum 2),
           (''test_functions'', JNum 3), (''cursor_prompt'', JNum 4)]"

definition example_code_head :: string where
  \<open>example_code_head =
     ''{"locators": 1, "reusable_functions": 2, "test_functions": 3, "cursor_prompt": 4''\<close>

definition example_comma_brace :: string where
  "example_comma_brace = example_code_head @ '',}''"

definition example_no_comma :: string where
  "example_no_comma = example_code_head @ [newline] @ ''}''"

text \<open>An answer for \<^verbatim>\<open>generate_test_cases\<close> with a trailing comma before a newline and the
  closing brace.\<close>

definition example_invalid_status_comma :: string where
  \<open>example_invalid_status_comma = ''{"status": "invalid",'' @ [newline] @ ''}''\<close>

text \<open>Prose with a brace pair before the object.\<close>

definition example_braces_in_prose :: string where
  \<open>example_braces_in_prose = ''Use {x} here: {"a": 1} end''\<close>

text \<open>An object with a trailing comma in its array and one before its closing brace, both
  before a newline; the same without the commas; and an object that lacks the required
  keys, with a trailing comma.\<close>

definition example_two_commas :: string where
  \<open>example_two_commas =
     ''{"locators": [1,'' @ [newline] @ ''], "reusable_functions": 2, "test_functions": 3, "cursor_prompt": 4,''
     @ [newline] @ ''}''\<close>

definition example_two_commas_object :: json where
  "example_two_commas_object =
     JObj [(''locators'', JArr [JNum 1]), (''reusable_functions'', JNum 2),
           (''test_functions'', JNum 3), (''cursor_prompt'', JNum 4)]"

definition example_other_object_comma :: string where
  \<open>example_other_object_comma = ''{"a": 1,'' @ [newline] @ ''}''\<close>

text \<open>The same object with a comma before a newline and an indented closing brace.\<close>

definition example_comma_indented_brace :: string where
  "example_comma_indented_brace = example_code_head @ '','' @ [newline] @ ''  }''"

section \<open>Properties\<close>

subsection \<open>Substring search\<close>

lemma contains_prefix: "prefix sub s \<Longrightarrow> contains sub s"
  by (cases s) auto

lemma contains_appI: "contains sub (pre @ sub @ post)"
proof (induction pre)
  case Nil
  show ?case by (simp add: contains_prefix)
next
  case (Cons a pre)
  then show ?case by simp
qed

lemma contains_char: "contains [c] s \<longleftrightarrow> c \<in> set s"
  by (induction s) auto

lemma prefix_shorter:
  assumes "prefix xs (ys @ zs)" "length xs \<le> length ys"
  shows "prefix xs ys"
  using assms by (auto simp: prefix_append)

lemma find_at_first:
  assumes "\<not> contains (p @ [c]) (pre @ p)"
  shows "find_at (p @ [c]) (pre @ p @ c # rest) i = int (i + length pre)"
  using assms
proof (induction pre arbitrary: i)
  case Nil
  show ?case by (cases p) auto
next
  case (Cons a pre)
  have np: "\<not> prefix (p @ [c]) (a # pre @ p)" and nc: "\<not> contains (p @ [c]) (pre @ p)"
    using Cons.prems by auto
  have "\<not> prefix (p @ [c]) ((a # pre @ p) @ c # rest)"
  proof
    assume "prefix (p @ [c]) ((a # pre @ p) @ c # rest)"
    then have "prefix (p @ [c]) (a # pre @ p)" by (rule prefix_shorter) simp
    with np show False ..
  qed
  then show ?case using Cons.IH[OF nc] by simp
qed

lemma find_at_char:
  "c \<notin> set v \<Longrightarrow> find_at [c] (v @ c # post) i = int (i + length v)"
  using find_at_first[of "[]" c v post i] by (simp add: contains_char)

lemma find_at_absent: "c \<notin> set s \<Longrightarrow> find_at [c] s i = - 1"
  by (induction s arbitrary: i) auto

lemma find_at_not_contains: "\<not> contains sub s \<Longrightarrow> find_at sub s i = - 1"
  by (induction s arbitrary: i) auto

lemma replace_char: "replace [c] [d] s = map (\<lambda>x. if x = c then d else x) s"
  by (induction s) auto

lemma replace_absent: "old \<noteq> [] \<Longrightarrow> \<not> contains old s \<Longrightarrow> replace old new s = s"
  by (induction s) auto

lemma replace_first:
  assumes "old \<noteq> []" "\<not> contains old (a @ butlast old)"
  shows "replace old new (a @ old @ b) = a @ new @ replace old new b"
  using assms(2)
proof (induction a)
  case Nil
  obtain c r where o: "old = c # r" using assms(1) by (cases old) auto
  show ?case by (simp add: o)
next
  case (Cons x a)
  have np: "\<not> prefix old (x # a @ butlast old)" and nc: "\<not> contains old (a @ butlast old)"
    using Cons.prems by auto
  have "\<not> prefix old (x # a @ old @ b)"
  proof
    assume p: "prefix old (x # a @ old @ b)"
    have "x # a @ old @ b = (x # a @ butlast old) @ (last old # b)"
      using assms(1) by simp
    with p have "prefix old ((x # a @ butlast old) @ (last old # b))" by simp
    then have "prefix old (x # a @ butlast old)"
      by (rule prefix_shorter) (use assms(1) in \<open>cases old; simp\<close>)
    with np show False ..
  qed
  then show ?case using Cons.IH[OF nc] assms(1) by simp
qed

text \<open>Replacing a pattern of three characters: the text before its first occurrence is
  copied.\<close>

lemma prefix3_extend:
  assumes "\<not> prefix [a, b, c0] (x # s)" "\<not> prefix [b, c0] rest" "\<not> prefix [c0] rest"
  shows "\<not> prefix [a, b, c0] (x # s @ rest)"
proof (cases s)
  case Nil
  with assms show ?thesis by simp
next
  case (Cons y s')
  with assms show ?thesis by (cases s') simp_all
qed

lemma replace3_skip:
  assumes "\<not> contains [a, b, c0] s" "\<not> prefix [b, c0] rest" "\<not> prefix [c0] rest"
  shows "replace [a, b, c0] new (s @ rest) = s @ replace [a, b, c0] new rest"
  using assms(1)
proof (induction s)
  case Nil
  show ?case by simp
next
  case (Cons x s)
  have np: "\<not> prefix [a, b, c0] (x # s)" and nc: "\<not> contains [a, b, c0] s"
    using Cons.prems by auto
  have "\<not> prefix [a, b, c0] (x # s @ rest)"
    using np assms(2,3) by (rule prefix3_extend)
  then have "replace [a, b, c0] new (x # s @ rest) = x # replace [a, b, c0] new (s @ rest)"
    by (simp del: Cons_prefix_Cons)
  then show ?case using Cons.IH[OF nc] by simp
qed

lemma replace3_hit:
  assumes "\<not> contains [a, b, c0] s" "b \<noteq> a" "c0 \<noteq> a"
  shows "replace [a, b, c0] new (s @ a # b # c0 # rest) = s @ new @ replace [a, b, c0] new rest"
  using replace3_skip[of a b c0 s "a # b # c0 # rest" new] assms by simp

lemma replace3_miss:
  assumes "\<not> contains [a, b, c0] s" "b \<noteq> a" "c0 \<noteq> a" "c \<noteq> c0" "c \<noteq> a"
  shows "replace [a, b, c0] new (s @ a # b # c # rest)
           = s @ a # b # c # replace [a, b, c0] new rest"
  using replace3_skip[of a b c0 s "a # b # c # rest" new] assms by simp

lemma replace3_inert:
  assumes "\<not> contains [a, b, c0] s" "b \<noteq> a" "c0 \<noteq> b" "c \<noteq> c0" "c \<noteq> a"
  shows "replace [a, b, c0] new (s @ b # c # rest) = s @ b # c # replace [a, b, c0] new rest"
  using replace3_skip[of a b c0 s "b # c # rest" new] assms by simp

subsection \<open>The action extractor\<close>

text \<open>The text between the first occurrence of an opening pattern that ends in a quote
  and the next quote of that kind.\<close>

lemma quoted_argument_dq:
  assumes "\<not> contains (acc @ [CHR ''('', dquote]) (pre @ acc @ [CHR ''(''])"
    and "dquote \<notin> set v" "v \<noteq> []"
  shows "quoted_argument acc (pre @ acc @ [CHR ''('', dquote] @ v @ [dquote] @ post) = Some v"
proof -
  let ?line = "pre @ acc @ [CHR ''('', dquote] @ v @ [dquote] @ post"
  let ?dpat = "acc @ [CHR ''('', dquote]"
  have f1: "str_find ?line ?dpat 0 = int (length pre)"
    using find_at_first[of "acc @ [CHR ''('']" dquote pre "v @ [dquote] @ post" 0] assms(1)
    by (simp add: str_find_def clamp_index_def)
  let ?start = "int (length pre) + int (length ?dpat)"
  have cl: "clamp_index ?line ?start = length pre + length ?dpat"
    by (simp add: clamp_index_def)
  have dr: "drop (length pre + length ?dpat) ?line = v @ dquote # post" by simp
  have f2: "str_find ?line [dquote] ?start = ?start + int (length v)"
    unfolding str_find_def cl dr using find_at_char[OF assms(2), of post] by simp
  have c2: "contains [dquote] (str_from ?line ?start)"
    unfolding str_from_def cl dr by (simp add: contains_char)
  have cl2: "clamp_index ?line (?start + int (length v)) = length pre + length ?dpat + length v"
    by (simp add: clamp_index_def)
  have sl: "str_slice ?line ?start (?start + int (length v)) = v"
    unfolding str_slice_def cl cl2 dr by simp
  show ?thesis
    unfolding quoted_argument_def Let_def f1 using c2 f2 sl assms(3) by simp
qed

lemma quoted_argument_sq:
  assumes "\<not> contains (acc @ [CHR ''('', dquote])
                 (pre @ acc @ [CHR ''('', squote] @ v @ [squote] @ post)"
    and "\<not> contains (acc @ [CHR ''('', squote]) (pre @ acc @ [CHR ''(''])"
    and "squote \<notin> set v" "v \<noteq> []" "dquote \<notin> set v" "dquote \<notin> set post"
  shows "quoted_argument acc (pre @ acc @ [CHR ''('', squote] @ v @ [squote] @ post) = Some v"
proof -
  let ?line = "pre @ acc @ [CHR ''('', squote] @ v @ [squote] @ post"
  let ?dpat = "acc @ [CHR ''('', dquote]"
  let ?spat = "acc @ [CHR ''('', squote]"
  have f0: "str_find ?line ?dpat 0 = - 1"
    using find_at_not_contains[OF assms(1), of 0] by (simp add: str_find_def clamp_index_def)
  have f1: "str_find ?line ?spat 0 = int (length pre)"
    using find_at_first[of "acc @ [CHR ''('']" squote pre "v @ [squote] @ post" 0] assms(2)
    by (simp add: str_find_def clamp_index_def)
  let ?start = "int (length pre) + int (length ?spat)"
  have cl: "clamp_index ?line ?start = length pre + length ?spat"
    by (simp add: clamp_index_def)
  have dr: "drop (length pre + length ?spat) ?line = v @ squote # post" by simp
  have f2: "str_find ?line [squote] ?start = ?start + int (length v)"
    unfolding str_find_def cl dr using find_at_char[OF assms(3), of post] by simp
  have c2: "\<not> contains [dquote] (str_from ?line ?start)"
    unfolding str_from_def cl dr using assms(5,6)
    by (simp add: contains_char dquote_def squote_def)
  have cl2: "clamp_index ?line (?start + int (length v)) = length pre + length ?spat + length v"
    by (simp add: clamp_index_def)
  have sl: "str_slice ?line ?start (?start + int (length v)) = v"
    unfolding str_slice_def cl cl2 dr by simp
  have len: "length ?spat = length ?dpat" by simp
  show ?thesis
    unfolding quoted_argument_def Let_def f0 f1 len[symmetric] using c2 f2 sl assms(4) by simp
qed

text \<open>The value of a fill call: the double-quoted pattern is tried first.\<close>

lemma fill_value_with_first:
  assumes "\<not> contains (''.fill('' @ [q]) (fpre @ ''.fill('')"
    and "q \<notin> set w" "w \<noteq> []"
  shows "fill_value_with q (fpre @ ''.fill('' @ [q] @ w @ [q] @ fpost) = Some w"
proof -
  let ?line = "fpre @ ''.fill('' @ [q] @ w @ [q] @ fpost"
  let ?pat = "''.fill('' @ [q]"
  have c1: "contains ?pat ?line"
    using contains_appI[of ?pat fpre "w @ [q] @ fpost"] by simp
  have f1: "str_find ?line ?pat 0 = int (length fpre)"
    using find_at_first[of "''.fill(''" q fpre "w @ [q] @ fpost" 0] assms(1)
    by (simp add: str_find_def clamp_index_def)
  let ?start = "int (length fpre) + int (length ?pat)"
  have cl: "clamp_index ?line ?start = length fpre + length ?pat"
    by (simp add: clamp_index_def)
  have dr: "drop (length fpre + length ?pat) ?line = w @ q # fpost" by simp
  have f2: "str_find ?line [q] ?start = ?start + int (length w)"
    unfolding str_find_def cl dr using find_at_char[OF assms(2), of fpost] by simp
  have cl2: "clamp_index ?line (?start + int (length w)) = length fpre + length ?pat + length w"
    by (simp add: clamp_index_def)
  have sl: "str_slice ?line ?start (?start + int (length w)) = w"
    unfolding str_slice_def cl cl2 dr by simp
  show ?thesis
    unfolding fill_value_with_def Let_def using c1 f1 f2 sl assms(3) by simp
qed

lemma fill_value_dq:
  assumes "\<not> contains (''.fill('' @ [dquote]) (fpre @ ''.fill('')"
    and "dquote \<notin> set w" "w \<noteq> []"
  shows "fill_value (fpre @ ''.fill('' @ [dquote] @ w @ [dquote] @ fpost) = w"
  using fill_value_with_first[OF assms] by (simp add: fill_value_def)

lemma fill_value_sq:
  assumes "\<not> contains (''.fill('' @ [dquote]) (fpre @ ''.fill('' @ [squote] @ w @ [squote] @ fpost)"
    and "\<not> contains (''.fill('' @ [squote]) (fpre @ ''.fill('')"
    and "squote \<notin> set w" "w \<noteq> []"
  shows "fill_value (fpre @ ''.fill('' @ [squote] @ w @ [squote] @ fpost) = w"
  using fill_value_with_first[OF assms(2,3,4)] assms(1)
  by (simp add: fill_value_def fill_value_with_def)

text \<open>
  Claim C2, as the code has it. Take a stripped line without a navigation call, where
  the first occurrence of an accessor's opening, \<^verbatim>\<open>acc("\<close> or \<^verbatim>\<open>acc('\<close>, is followed by a
  non-empty literal \<open>v\<close> and its closing quote \<open>q\<close>; when \<open>q\<close> is the single quote,
  the line has no \<^verbatim>\<open>acc("\<close> and no double quote after the opening. A line that contains
  \<^verbatim>\<open>.click()\<close> yields \<open>Click\<close> with the test-id selector \<open>v\<close> when the accessor is the
  test-id accessor, with the role selector when it is the role accessor and no test-id
  accessor is in the line, and with the generic (css) selector when it is the locator
  accessor and neither of the other two is in the line. A line that contains \<^verbatim>\<open>.fill(\<close>
  and no \<^verbatim>\<open>.click()\<close> yields \<open>Fill\<close> with the test-id selector, or with the generic
  selector when neither a test-id nor a role accessor is in the line, and with the first
  quoted literal \<open>w\<close> of the fill call as its value, in double quotes, or in single
  quotes when the line has no \<^verbatim>\<open>.fill("\<close>. The text accessor is not among the accessors
  that are checked.
\<close>

theorem C2_accessor_priority:
  assumes nogoto: "\<not> contains ''page.goto('' line"
    and line: "line = pre @ acc @ [CHR ''('', q] @ v @ [q] @ post"
    and first: "\<not> contains (acc @ [CHR ''('', q]) (pre @ acc @ [CHR ''(''])"
    and v: "q \<notin> set v" "v \<noteq> []"
    and quote: "q = dquote \<or>
                (q = squote \<and> \<not> contains (acc @ [CHR ''('', dquote]) line
                   \<and> dquote \<notin> set v \<and> dquote \<notin> set post)"
  shows "(contains ''.click()'' line \<longrightarrow>
            (acc = ''get_by_test_id'' \<longrightarrow>
               extract_line line = Some (Click (mk_selector ''testid'' v))) \<and>
            (acc = ''get_by_role'' \<and> \<not> contains ''get_by_test_id('' line \<longrightarrow>
               extract_line line = Some (Click (mk_selector ''role'' v))) \<and>
            (acc = ''locator'' \<and> \<not> contains ''get_by_test_id('' line
               \<and> \<not> contains ''get_by_role('' line \<longrightarrow>
               extract_line line = Some (Click (mk_selector ''css'' v)))) \<and>
         (\<not> contains ''.click()'' line
            \<and> line = fpre @ ''.fill('' @ [q'] @ w @ [q'] @ fpost
            \<and> \<not> contains (''.fill('' @ [q']) (fpre @ ''.fill('')
            \<and> q' \<notin> set w \<and> w \<noteq> []
            \<and> (q' = dquote \<or> (q' = squote \<and> \<not> contains (''.fill('' @ [dquote]) line)) \<longrightarrow>
            (acc = ''get_by_test_id'' \<longrightarrow>
               extract_line line = Some (Fill (mk_selector ''testid'' v) w)) \<and>
            (acc = ''locator'' \<and> \<not> contains ''get_by_test_id('' line
               \<and> \<not> contains ''get_by_role('' line \<longrightarrow>
               extract_line line = Some (Fill (mk_selector ''css'' v) w)))"
proof -
  have q: "quoted_argument acc line = Some v"
  proof (cases "q = dquote")
    case True
    show ?thesis unfolding line True
      using first v unfolding True by (rule quoted_argument_dq)
  next
    case False
    with quote have s: "q = squote" and nd: "\<not> contains (acc @ [CHR ''('', dquote]) line"
      and dv: "dquote \<notin> set v" and dp: "dquote \<notin> set post" by blast+
    show ?thesis unfolding line s
      using nd first v dv dp unfolding line s by (rule quoted_argument_sq)
  qed
  have acc_in: "contains (acc @ ''('') line"
    using contains_appI[of "acc @ ''(''" pre "[q] @ v @ [q] @ post"]
    by (simp add: line)
  have click: "contains ''.click()'' line \<Longrightarrow> extract_line line = map_option Click (click_selector line)"
    using nogoto by (simp add: extract_line_def)
  have c1: "acc = ''get_by_test_id'' \<Longrightarrow> click_selector line = Some (mk_selector ''testid'' v)"
    using q acc_in by (simp add: click_selector_def)
  have c2: "acc = ''get_by_role'' \<Longrightarrow> \<not> contains ''get_by_test_id('' line
      \<Longrightarrow> click_selector line = Some (mk_selector ''role'' v)"
    using q acc_in by (simp add: click_selector_def)
  have c3: "acc = ''locator'' \<Longrightarrow> \<not> contains ''get_by_test_id('' line
      \<Longrightarrow> \<not> contains ''get_by_role('' line
      \<Longrightarrow> click_selector line = Some (mk_selector ''css'' v)"
    using q acc_in by (simp add: click_selector_def)
  have d1: "acc = ''get_by_test_id'' \<Longrightarrow> fill_selector line = Some (mk_selector ''testid'' v)"
    using q acc_in by (simp add: fill_selector_def)
  have d3: "acc = ''locator'' \<Longrightarrow> \<not> contains ''get_by_test_id('' line
      \<Longrightarrow> fill_selector line = Some (mk_selector ''css'' v)"
    using q acc_in by (simp add: fill_selector_def)
  have fill: "\<not> contains ''.click()'' line \<Longrightarrow>
      line = fpre @ ''.fill('' @ [q'] @ w @ [q'] @ fpost \<Longrightarrow>
      \<not> contains (''.fill('' @ [q']) (fpre @ ''.fill('') \<Longrightarrow> q' \<notin> set w \<Longrightarrow> w \<noteq> [] \<Longrightarrow>
      q' = dquote \<or> (q' = squote \<and> \<not> contains (''.fill('' @ [dquote]) line) \<Longrightarrow>
      extract_line line = map_option (\<lambda>s. Fill s w) (fill_selector line)"
  proof -
    assume a: "\<not> contains ''.click()'' line"
      "line = fpre @ ''.fill('' @ [q'] @ w @ [q'] @ fpost"
      "\<not> contains (''.fill('' @ [q']) (fpre @ ''.fill('')" "q' \<notin> set w" "w \<noteq> []"
      "q' = dquote \<or> (q' = squote \<and> \<not> contains (''.fill('' @ [dquote]) line)"
    have fv: "fill_value line = w"
    proof (cases "q' = dquote")
      case True
      show ?thesis unfolding a(2) True
        using a(3,4,5) unfolding True by (rule fill_value_dq)
    next
      case False
      with a(6) have s: "q' = squote" and nd: "\<not> contains (''.fill('' @ [dquote]) line"
        by blast+
      show ?thesis unfolding a(2) s
        using nd a(3,4,5) unfolding a(2) s by (rule fill_value_sq)
    qed
    have fi: "contains ''.fill('' line"
      using contains_appI[of "''.fill(''" fpre "[q'] @ w @ [q'] @ fpost"]
      by (simp add: a(2))
    show ?thesis using nogoto a(1) fi fv by (simp add: extract_line_def)
  qed
  show ?thesis
    using click c1 c2 c3 fill d1 d3 by auto
qed

text \<open>The theorem at the second line of the scenario, at its third line, and at the third
  line written with single quotes.\<close>

theorem C2_accessor_priority_witness:
  \<open>extract_line ''page.get_by_test_id("submit-btn").click()''
     = Some (Click (mk_selector ''testid'' ''submit-btn''))
   \<and> extract_line ''page.locator("#email").fill("a@b.com")''
     = Some (Fill (mk_selector ''css'' ''#email'') ''a@b.com'')
   \<and> extract_line (''page.locator('' @ [squote] @ ''#email'' @ [squote] @ '').fill(''
                     @ [squote] @ ''a@b.com'' @ [squote] @ '')'')
     = Some (Fill (mk_selector ''css'' ''#email'') ''a@b.com'')\<close>
proof -
  let ?l1 = \<open>''page.get_by_test_id("submit-btn").click()''\<close>
  let ?l2 = \<open>''page.locator("#email").fill("a@b.com")''\<close>
  let ?l3 = "''page.locator('' @ [squote] @ ''#email'' @ [squote] @ '').fill(''
               @ [squote] @ ''a@b.com'' @ [squote] @ '')''"
  have a1: "\<not> contains ''page.goto('' ?l1" by code_simp
  have a2: "?l1 = ''page.'' @ ''get_by_test_id'' @ [CHR ''('', dquote] @ ''submit-btn'' @ [dquote] @ '').click()''"
    by (simp add: dquote_def)
  have a3: "\<not> contains (''get_by_test_id'' @ [CHR ''('', dquote]) (''page.'' @ ''get_by_test_id'' @ [CHR ''(''])"
    by code_simp
  have a4: "dquote \<notin> set ''submit-btn''" "''submit-btn'' \<noteq> []" by (simp_all add: dquote_def)
  have a5: "contains ''.click()'' ?l1" by code_simp
  have b1: "\<not> contains ''page.goto('' ?l2" by code_simp
  have b2: "?l2 = ''page.'' @ ''locator'' @ [CHR ''('', dquote] @ ''#email'' @ [dquote] @ '').fill('' @ [dquote] @ ''a@b.com'' @ [dquote] @ '')''"
    by (simp add: dquote_def)
  have b3: "\<not> contains (''locator'' @ [CHR ''('', dquote]) (''page.'' @ ''locator'' @ [CHR ''(''])"
    by code_simp
  have b4: "dquote \<notin> set ''#email''" "''#email'' \<noteq> []" by (simp_all add: dquote_def)
  have b5: "\<not> contains ''.click()'' ?l2" "\<not> contains ''get_by_test_id('' ?l2"
    "\<not> contains ''get_by_role('' ?l2" by code_simp+
  have b6: "?l2 = (''page.locator('' @ [dquote] @ ''#email'' @ [dquote] @ '')'') @ ''.fill('' @ [dquote] @ ''a@b.com'' @ [dquote] @ '')''"
    by (simp add: dquote_def)
  have b7: "\<not> contains (''.fill('' @ [dquote]) ((''page.locator('' @ [dquote] @ ''#email'' @ [dquote] @ '')'') @ ''.fill('')"
    by code_simp
  have b8: "dquote \<notin> set ''a@b.com''" "''a@b.com'' \<noteq> []" by (simp_all add: dquote_def)
  have c1: "\<not> contains ''page.goto('' ?l3" by code_simp
  have c2: "?l3 = ''page.'' @ ''locator'' @ [CHR ''('', squote] @ ''#email'' @ [squote]
                    @ ('').fill('' @ [squote] @ ''a@b.com'' @ [squote] @ '')'')"
    by simp
  have c3: "\<not> contains (''locator'' @ [CHR ''('', squote]) (''page.'' @ ''locator'' @ [CHR ''(''])"
    by code_simp
  have c4: "squote \<notin> set ''#email''" "''#email'' \<noteq> []" by (simp_all add: squote_def)
  have c5: "squote = dquote \<or>
            (squote = squote \<and> \<not> contains (''locator'' @ [CHR ''('', dquote]) ?l3
               \<and> dquote \<notin> set ''#email''
               \<and> dquote \<notin> set ('').fill('' @ [squote] @ ''a@b.com'' @ [squote] @ '')''))"
    by code_simp
  have c6: "\<not> contains ''.click()'' ?l3" "\<not> contains ''get_by_test_id('' ?l3"
    "\<not> contains ''get_by_role('' ?l3" by code_simp+
  have c7: "?l3 = (''page.locator('' @ [squote] @ ''#email'' @ [squote] @ '')'') @ ''.fill('' @ [squote] @ ''a@b.com'' @ [squote] @ '')''"
    by simp
  have c8: "\<not> contains (''.fill('' @ [squote]) ((''page.locator('' @ [squote] @ ''#email'' @ [squote] @ '')'') @ ''.fill('')"
    by code_simp
  have c9: "squote \<notin> set ''a@b.com''" "''a@b.com'' \<noteq> []" by (simp_all add: squote_def)
  have c10: "squote = dquote \<or> (squote = squote \<and> \<not> contains (''.fill('' @ [dquote]) ?l3)"
    by code_simp
  from C2_accessor_priority[OF a1 a2 a3 a4] a5
  have r1: "extract_line ?l1 = Some (Click (mk_selector ''testid'' ''submit-btn''))" by blast
  from C2_accessor_priority[OF b1 b2 b3 b4, of "''page.locator('' @ [dquote] @ ''#email'' @ [dquote] @ '')''" dquote "''a@b.com''" "'')''"]
    b5 b6 b7 b8
  have r2: "extract_line ?l2 = Some (Fill (mk_selector ''css'' ''#email'') ''a@b.com'')" by blast
  from C2_accessor_priority[OF c1 c2 c3 c4 c5, of "''page.locator('' @ [squote] @ ''#email'' @ [squote] @ '')''" squote "''a@b.com''" "'')''"]
    c6 c7 c8 c9 c10
  have r3: "extract_line ?l3 = Some (Fill (mk_selector ''css'' ''#email'') ''a@b.com'')" by blast
  from r1 r2 r3 show ?thesis by simp
qed

text \<open>
  Claim C2 as stated fails, and each condition of the statement above is needed. A click
  through the text accessor yields no action, and so does a fill through the role
  accessor. A single-quoted selector before a double-quoted fill value comes out with the
  text up to that double quote. An empty literal yields no action. A line with a
  navigation call is a navigation whatever else it holds, and a line with a click call
  is a click whatever it fills.
\<close>

theorem C2_text_accessor_counterexample:
  \<open>extract_line ''page.get_by_text("Submit").click()'' = None
   \<and> extract_line ''page.get_by_role("textbox").fill("x")'' = None
   \<and> extract_line (''page.get_by_test_id('' @ [squote] @ ''a'' @ [squote] @ '').fill("x")'')
       = Some (Fill (mk_selector ''testid'' (''a'' @ [squote] @ '').fill('')) ''x'')
   \<and> extract_line ''page.get_by_test_id("").click()'' = None
   \<and> extract_line ''page.goto("u"); page.get_by_test_id("a").click()''
       = Some (Navigate ''u'')
   \<and> extract_line ''page.get_by_test_id("a").fill("x"); page.locator("b").click()''
       = Some (Click (mk_selector ''testid'' ''a''))\<close>
  by code_simp

text \<open>
  Claim C1, evaluated on the scenario. The extractor yields the three actions of the
  claim. Converting that list to test steps raises \<open>AttributeError\<close> at the click,
  whose selector is a dictionary, instead of yielding the three steps; and locator
  generation declares one locator, for the test-id selector, and none for the css
  selector \<^verbatim>\<open>#email\<close>.
\<close>

theorem C1_end_to_end_scenario:
  \<open>extract_actions_from_code scenario_code start_url []
     = [Navigate ''https://x.test/login'',
        Click (mk_selector ''testid'' ''submit-btn''),
        Fill (mk_selector ''css'' ''#email'') ''a@b.com'']
   \<and> convert_actions_to_test_steps
         [Navigate ''https://x.test/login'',
          Click (mk_selector ''testid'' ''submit-btn''),
          Fill (mk_selector ''css'' ''#email'') ''a@b.com'']
     = Inl AttributeError
   \<and> extract_locators_from_actions
         [Navigate ''https://x.test/login'',
          Click (mk_selector ''testid'' ''submit-btn''),
          Fill (mk_selector ''css'' ''#email'') ''a@b.com'']
     = (''class Locators:'' @ [newline] @ ''    submit_btn = page.get_by_test_id("submit-btn")'',
        ''// Locators'' @ [newline] @ ''const submit_btn = page.getByTestId('' @ [squote]
          @ ''submit-btn'' @ [squote] @ '');'')\<close>
  by code_simp

text \<open>With the selectors as the strings that \<^verbatim>\<open>_make_selector_readable\<close> expects, the
  conversion yields the three steps of the scenario.\<close>

lemma convert_string_selectors:
  \<open>convert_actions_to_test_steps
     [Navigate ''https://x.test/login'', Click (SelStr ''data-testid=submit-btn''),
      Fill (SelStr ''#email'') ''a@b.com'']
   = Inr [''1. Navigate to https://x.test/login'', ''2. Click on submit-btn'',
          ''3. Enter '' @ [squote] @ ''a@b.com'' @ [squote] @ '' in element with id ''
            @ [squote] @ ''email'' @ [squote]]\<close>
  by code_simp

subsection \<open>The normalizer\<close>

lemma format_steps_rows:
  "\<exists>rows. format_steps items i (JArr ers) = Inr rows
     \<and> length rows = length items
     \<and> (\<forall>j<length items. rows ! j =
           \<lparr>Step = items ! j,
            Expected_Result = (if i + j < length ers then ers ! (i + j) else JStr [])\<rparr>)"
proof (induction items arbitrary: i)
  case Nil
  show ?case by simp
next
  case (Cons s items)
  from Cons.IH[of "Suc i"] obtain rows where
    r: "format_steps items (Suc i) (JArr ers) = Inr rows" "length rows = length items"
      "\<forall>j<length items. rows ! j =
         \<lparr>Step = items ! j,
          Expected_Result = (if Suc i + j < length ers then ers ! (Suc i + j) else JStr [])\<rparr>"
    by blast
  let ?r = "\<lparr>Step = s, Expected_Result = (if i < length ers then ers ! i else JStr [])\<rparr>"
  have "format_steps (s # items) i (JArr ers) = Inr (?r # rows)"
    using r(1) by (simp add: expected_result_at_def and_then_def py_len_def py_index_def)
  moreover have "length (?r # rows) = length (s # items)" using r(2) by simp
  moreover have "\<forall>j<length (s # items). (?r # rows) ! j =
      \<lparr>Step = (s # items) ! j,
       Expected_Result = (if i + j < length ers then ers ! (i + j) else JStr [])\<rparr>"
  proof (intro allI impI)
    fix j assume "j < length (s # items)"
    then show "(?r # rows) ! j =
      \<lparr>Step = (s # items) ! j,
       Expected_Result = (if i + j < length ers then ers ! (i + j) else JStr [])\<rparr>"
      using r(3) by (cases j) auto
  qed
  ultimately show ?case by blast
qed

lemma format_test_case_object:
  assumes "map_of flds ''steps'' = Some (JArr steps)"
    and "map_of flds ''expected_results'' = Some (JArr ers)"
  shows "\<exists>tc. format_test_case (JObj flds) = Inr tc
           \<and> length (tc_steps tc) = length steps
           \<and> (\<forall>i<length steps. tc_steps tc ! i =
                 \<lparr>Step = steps ! i,
                  Expected_Result = (if i < length ers then ers ! i else JStr [])\<rparr>)"
proof -
  from format_steps_rows[of steps 0 ers] obtain rows where
    r: "format_steps steps 0 (JArr ers) = Inr rows" "length rows = length steps"
      "\<forall>j<length steps. rows ! j =
         \<lparr>Step = steps ! j,
          Expected_Result = (if j < length ers then ers ! j else JStr [])\<rparr>"
    by auto
  show ?thesis
    using assms r
    by (simp add: format_test_case_def and_then_def py_get_def py_iter_def)
qed

lemma for_each_nth:
  assumes "\<forall>k<length xs. \<exists>y. f (xs ! k) = Inr y \<and> P k y"
  shows "\<exists>ys. for_each f xs = Inr ys \<and> length ys = length xs \<and> (\<forall>k<length xs. P k (ys ! k))"
  using assms
proof (induction xs arbitrary: P)
  case Nil
  show ?case by simp
next
  case (Cons x xs)
  from Cons.prems obtain y where y: "f x = Inr y" "P 0 y" by fastforce
  have "\<forall>k<length xs. \<exists>y. f (xs ! k) = Inr y \<and> P (Suc k) y"
    using Cons.prems by fastforce
  from Cons.IH[of "\<lambda>k. P (Suc k)", OF this] obtain ys where
    ys: "for_each f xs = Inr ys" "length ys = length xs" "\<forall>k<length xs. P (Suc k) (ys ! k)"
    by blast
  have "\<forall>k<length (x # xs). P k ((y # ys) ! k)"
  proof (intro allI impI)
    fix k assume "k < length (x # xs)"
    then show "P k ((y # ys) ! k)" using y(2) ys(3) by (cases k) auto
  qed
  then show ?case using y(1) ys(1,2) by auto
qed

text \<open>
  Claim C5. When the model output parses to an object with status \<^verbatim>\<open>ready\<close> whose
  \<^verbatim>\<open>test_cases\<close> is a non-empty array of objects, test case \<open>k\<close> having the array
  \<open>steps k\<close> and the array \<open>ers k\<close> of expected results, of any length,
  \<^verbatim>\<open>generate_test_cases\<close> succeeds with one formatted test case per test case, test case
  \<open>k\<close> has exactly \<open>length (steps k)\<close> rows, and row \<open>i\<close> carries step \<open>i\<close> with
  expected result \<open>i\<close> where there is one and the empty string from index
  \<open>length (ers k)\<close> on.
\<close>

theorem C5_missing_expected_results_padded:
  assumes parsed: "parse_generation_output loads generation_output = Some (JObj kvs)"
    and status: "map_of kvs ''status'' = Some (JStr ''ready'')"
    and cases: "map_of kvs ''test_cases'' = Some (JArr tcs)" "tcs \<noteq> []"
    and shape: "\<forall>k<length tcs. tcs ! k = JObj (flds k)
                  \<and> map_of (flds k) ''steps'' = Some (JArr (steps k))
                  \<and> map_of (flds k) ''expected_results'' = Some (JArr (ers k))"
  shows "\<exists>rows ftcs.
           fst (generate_test_cases loads dumps to_records fs ctx raw generation_output) = Generated rows ftcs
           \<and> length ftcs = length tcs
           \<and> (\<forall>k<length tcs.
                 length (tc_steps (ftcs ! k)) = length (steps k)
                 \<and> (\<forall>i<length (steps k).
                       tc_steps (ftcs ! k) ! i =
                         \<lparr>Step = steps k ! i,
                          Expected_Result = (if i < length (ers k) then ers k ! i else JStr [])\<rparr>))"
proof -
  let ?P = "\<lambda>k tc. length (tc_steps tc) = length (steps k)
              \<and> (\<forall>i<length (steps k). tc_steps tc ! i =
                    \<lparr>Step = steps k ! i,
                     Expected_Result = (if i < length (ers k) then ers k ! i else JStr [])\<rparr>)"
  have "\<forall>k<length tcs. \<exists>tc. format_test_case (tcs ! k) = Inr tc \<and> ?P k tc"
  proof (intro allI impI)
    fix k assume k: "k < length tcs"
    with shape have s: "tcs ! k = JObj (flds k)"
      "map_of (flds k) ''steps'' = Some (JArr (steps k))"
      "map_of (flds k) ''expected_results'' = Some (JArr (ers k))" by auto
    show "\<exists>tc. format_test_case (tcs ! k) = Inr tc \<and> ?P k tc"
      unfolding s(1) using format_test_case_object[OF s(2,3)] by blast
  qed
  from for_each_nth[of tcs format_test_case ?P, OF this] obtain ftcs where
    f: "for_each format_test_case tcs = Inr ftcs" "length ftcs = length tcs"
       "\<forall>k<length tcs. ?P k (ftcs ! k)" by blast
  have ft: "format_test_cases (JArr tcs) = Inr ftcs"
    using f(1) by (simp add: format_test_cases_def py_iter_def and_then_def)
  have "fst (generate_test_cases loads dumps to_records fs ctx raw generation_output)
          = Generated (all_rows ftcs) ftcs"
    using parsed status cases ft
    by (simp add: generate_test_cases_def or_generation_error_def and_then_def py_get_def
        py_truthy_def Let_def)
  with f(2,3) show ?thesis by blast
qed


text \<open>
  The theorem on a ready answer with three steps and one expected result.
\<close>

theorem C5_missing_expected_results_padded_witness:
  "\<exists>rows ftcs.
      fst (generate_test_cases json_loads json_dumps (\<lambda>rows. rows) example_files
             example_context [] example_ready_output) = Generated rows ftcs
      \<and> length ftcs = 1
      \<and> length (tc_steps (ftcs ! 0)) = 3
      \<and> tc_steps (ftcs ! 0) ! 0 = \<lparr>Step = JStr ''a'', Expected_Result = JStr ''x''\<rparr>
      \<and> tc_steps (ftcs ! 0) ! 2 = \<lparr>Step = JStr ''c'', Expected_Result = JStr []\<rparr>"
proof -
  let ?flds = "[(''id'', JStr ''TC-01''), (''title'', JStr ''t''),
                (''steps'', JArr [JStr ''a'', JStr ''b'', JStr ''c'']),
                (''expected_results'', JArr [JStr ''x''])]"
  let ?tcs = "[JObj ?flds]"
  let ?kvs = "[(''status'', JStr ''ready''), (''test_cases'', JArr ?tcs)]"
  have h1: "parse_generation_output json_loads example_ready_output = Some (JObj ?kvs)"
    by code_simp
  have h2: "map_of ?kvs ''status'' = Some (JStr ''ready'')" by simp
  have h3: "map_of ?kvs ''test_cases'' = Some (JArr ?tcs)" "?tcs \<noteq> []" by simp_all
  have h4: "\<forall>k<length ?tcs. ?tcs ! k = JObj ((\<lambda>_. ?flds) k)
      \<and> map_of ((\<lambda>_. ?flds) k) ''steps'' = Some (JArr ((\<lambda>_. [JStr ''a'', JStr ''b'', JStr ''c'']) k))
      \<and> map_of ((\<lambda>_. ?flds) k) ''expected_results'' = Some (JArr ((\<lambda>_. [JStr ''x'']) k))"
    by simp
  from C5_missing_expected_results_padded[OF h1 h2 h3 h4,
      where dumps = json_dumps and to_records = "\<lambda>rows. rows" and fs = example_files
        and ctx = example_context and raw = "[]"]
  obtain rows ftcs where
    r: "fst (generate_test_cases json_loads json_dumps (\<lambda>rows. rows) example_files
               example_context [] example_ready_output) = Generated rows ftcs"
       "length ftcs = length ?tcs"
       "\<forall>k<length ?tcs. length (tc_steps (ftcs ! k)) = length [JStr ''a'', JStr ''b'', JStr ''c'']
          \<and> (\<forall>i<length [JStr ''a'', JStr ''b'', JStr ''c''].
                tc_steps (ftcs ! k) ! i =
                  \<lparr>Step = [JStr ''a'', JStr ''b'', JStr ''c''] ! i,
                   Expected_Result = (if i < length [JStr ''x''] then [JStr ''x''] ! i else JStr [])\<rparr>)"
    by blast
  from r(3) have k0: "length (tc_steps (ftcs ! 0)) = 3"
    "\<forall>i<3. tc_steps (ftcs ! 0) ! i =
        \<lparr>Step = [JStr ''a'', JStr ''b'', JStr ''c''] ! i,
         Expected_Result = (if i < 1 then [JStr ''x''] ! i else JStr [])\<rparr>"
    by simp_all
  from k0(2) have "tc_steps (ftcs ! 0) ! 0 = \<lparr>Step = JStr ''a'', Expected_Result = JStr ''x''\<rparr>"
    "tc_steps (ftcs ! 0) ! 2 = \<lparr>Step = JStr ''c'', Expected_Result = JStr []\<rparr>"
    by simp_all
  with r(1,2) k0(1) show ?thesis by simp
qed

text \<open>
  Claim C6. A parsed object with status \<^verbatim>\<open>ready\<close> and an empty \<^verbatim>\<open>test_cases\<close> array is
  answered with the error \<^verbatim>\<open>No test cases generated despite ready status.\<close>, and
  nothing is written to the cache, by \<^verbatim>\<open>generate_test_cases\<close> and by
  \<^verbatim>\<open>generate_test_cases_with_additional_info\<close>.
\<close>

theorem C6_empty_ready_is_error:
  assumes "parse_generation_output loads generation_output = Some (JObj kvs)"
    and "map_of kvs ''status'' = Some (JStr ''ready'')"
    and "map_of kvs ''test_cases'' = Some (JArr [])"
  shows "generate_test_cases loads dumps to_records fs ctx raw generation_output
           = (NoTestCases ''No test cases generated despite ready status.'', fs)
         \<and> generate_test_cases_with_additional_info loads dumps fs ctx generation_output
           = (NoTestCases ''No test cases generated despite ready status.'', fs)"
  using assms
  by (simp add: generate_test_cases_def generate_test_cases_with_additional_info_def
      or_generation_error_def and_then_def py_get_def py_truthy_def)

text \<open>
  The theorem on the text \<^verbatim>\<open>{"status": "ready", "test_cases": []}\<close>.
\<close>

theorem C6_empty_ready_is_error_witness:
  "generate_test_cases json_loads json_dumps (\<lambda>rows. rows) example_files
       example_context [] example_empty_ready_output
     = (NoTestCases ''No test cases generated despite ready status.'', example_files)
   \<and> generate_test_cases_with_additional_info json_loads json_dumps example_files example_context
       example_empty_ready_output
     = (NoTestCases ''No test cases generated despite ready status.'', example_files)"
proof -
  let ?kvs = "[(''status'', JStr ''ready''), (''test_cases'', JArr [])]"
  have h1: "parse_generation_output json_loads example_empty_ready_output = Some (JObj ?kvs)"
    by code_simp
  have h2: "map_of ?kvs ''status'' = Some (JStr ''ready'')" by simp
  have h3: "map_of ?kvs ''test_cases'' = Some (JArr [])" by simp
  show ?thesis by (rule C6_empty_ready_is_error[OF h1 h2 h3])
qed

text \<open>
  Claim C7. In \<^verbatim>\<open>regenerate_test_cases_with_feedback\<close>, a parsed object whose status is not
  \<^verbatim>\<open>ready\<close> (absent, \<^verbatim>\<open>needs_more_info\<close>, \<^verbatim>\<open>invalid\<close> or anything else) is answered
  with the unexpected-status error and no cache write; the result is never a
  needs-more-info round; and test cases are produced only from a parsed object with
  status \<^verbatim>\<open>ready\<close>.
\<close>

theorem C7_regeneration_accepts_only_ready:
  "(parse_generation_output loads generation_output = Some (JObj kvs)
      \<and> map_of kvs ''status'' \<noteq> Some (JStr ''ready'')
    \<longrightarrow> regenerate_test_cases_with_feedback loads dumps fs cache_ticket_id generation_output
          = (UnexpectedStatus (case map_of kvs ''status'' of Some v \<Rightarrow> v | None \<Rightarrow> JStr []), fs))
   \<and> fst (regenerate_test_cases_with_feedback loads dumps fs cache_ticket_id generation_output)
       \<noteq> NeedsMoreInfo notes c
   \<and> (fst (regenerate_test_cases_with_feedback loads dumps fs cache_ticket_id generation_output)
         = Generated rows ftcs
       \<longrightarrow> (\<exists>kvs'. parse_generation_output loads generation_output = Some (JObj kvs')
                   \<and> map_of kvs' ''status'' = Some (JStr ''ready'')))"
proof (intro conjI impI)
  assume "parse_generation_output loads generation_output = Some (JObj kvs)
      \<and> map_of kvs ''status'' \<noteq> Some (JStr ''ready'')"
  then show "regenerate_test_cases_with_feedback loads dumps fs cache_ticket_id generation_output
          = (UnexpectedStatus (case map_of kvs ''status'' of Some v \<Rightarrow> v | None \<Rightarrow> JStr []), fs)"
    by (auto simp: regenerate_test_cases_with_feedback_def or_generation_error_def and_then_def
        py_get_def split: option.splits)
next
  show "fst (regenerate_test_cases_with_feedback loads dumps fs cache_ticket_id generation_output)
       \<noteq> NeedsMoreInfo notes c"
    by (auto simp: regenerate_test_cases_with_feedback_def or_generation_error_def and_then_def
        Let_def split: option.splits sum.splits if_splits)
next
  assume g: "fst (regenerate_test_cases_with_feedback loads dumps fs cache_ticket_id generation_output)
         = Generated rows ftcs"
  then obtain data where d: "parse_generation_output loads generation_output = Some data"
    by (cases "parse_generation_output loads generation_output")
       (auto simp: regenerate_test_cases_with_feedback_def)
  from g d obtain kvs' where k: "data = JObj kvs'"
    by (cases data)
       (auto simp: regenerate_test_cases_with_feedback_def or_generation_error_def and_then_def
          py_get_def)
  from g d k have "map_of kvs' ''status'' = Some (JStr ''ready'')"
    by (auto simp: regenerate_test_cases_with_feedback_def or_generation_error_def and_then_def
        py_get_def split: option.splits if_splits)
  with d k show "\<exists>kvs'. parse_generation_output loads generation_output = Some (JObj kvs')
                   \<and> map_of kvs' ''status'' = Some (JStr ''ready'')" by blast
qed

text \<open>
  The theorem on a \<^verbatim>\<open>needs_more_info\<close> answer.
\<close>

theorem C7_regeneration_accepts_only_ready_witness:
  "regenerate_test_cases_with_feedback json_loads json_dumps example_files (Some ''PAN-1'')
       example_needs_info_output
     = (UnexpectedStatus (JStr ''needs_more_info''), example_files)"
proof -
  let ?kvs = "[(''status'', JStr ''needs_more_info''), (''notes'', JStr ''x''),
               (''questions'', JArr [JStr ''what browser?''])]"
  have h1: "parse_generation_output json_loads example_needs_info_output = Some (JObj ?kvs)"
    by code_simp
  have h2: "map_of ?kvs ''status'' \<noteq> Some (JStr ''ready'')" by simp
  from C7_regeneration_accepts_only_ready[of json_loads example_needs_info_output ?kvs
      json_dumps example_files "Some ''PAN-1''"] h1 h2
  show ?thesis by simp
qed

subsection \<open>The brace scan\<close>

text \<open>
  Inside a string literal the scan passes over the items without changing the counter.
\<close>

lemma scan_string_items:
  "list_all wf_sitem items \<Longrightarrow>
   scan_braces (concat (map render_sitem items) @ rest) i n True False e
     = scan_braces rest (i + length (concat (map render_sitem items))) n True False e"
proof (induction items arbitrary: i)
  case Nil
  show ?case by simp
next
  case (Cons it items)
  then have IH: "\<And>i. scan_braces (concat (map render_sitem items) @ rest) i n True False e
     = scan_braces rest (i + length (concat (map render_sitem items))) n True False e"
    by simp
  show ?case
  proof (cases it)
    case (Ch c)
    with Cons.prems have "c \<noteq> dquote" "c \<noteq> backslash" by simp_all
    then show ?thesis using Ch IH[of "Suc i"] by simp
  next
    case (Esc c)
    then show ?thesis using IH[of "Suc (Suc i)"] by simp
  qed
qed

text \<open>
  Outside a string literal, with the counter above zero, the scan passes over a token and
  leaves the counter, the string flag and the escape flag as they were.
\<close>

lemma scan_token:
  "wf_tok t \<Longrightarrow> 0 < n \<Longrightarrow>
   scan_braces (render t @ rest) i n False False e
     = scan_braces rest (i + length (render t)) n False False e"
proof (induction t arbitrary: i n rest)
  case (Plain c)
  then show ?case by simp
next
  case (Escaped c)
  then show ?case by simp
next
  case (Quoted items)
  have dq: "dquote \<noteq> backslash" by (simp add: dquote_def backslash_def)
  from Quoted.prems have w: "list_all wf_sitem items" by simp
  show ?case
    using scan_string_items[OF w, of "dquote # rest" "Suc i" n e] dq by simp
next
  case (Braced ts)
  have ne: "CHR ''{'' \<noteq> backslash" "CHR ''{'' \<noteq> dquote" "CHR ''}'' \<noteq> backslash"
    "CHR ''}'' \<noteq> dquote"
    by (simp_all add: dquote_def backslash_def)
  from Braced.prems have w: "list_all wf_tok ts" by simp
  have body: "\<And>i rest. scan_braces (concat (map render ts) @ rest) i (n + 1) False False e
      = scan_braces rest (i + length (concat (map render ts))) (n + 1) False False e"
    using Braced.IH w Braced.prems(2)
  proof (induction ts)
    case Nil
    show ?case by simp
  next
    case (Cons t ts)
    have t: "scan_braces (render t @ (concat (map render ts) @ rest)) i (n + 1) False False e
      = scan_braces (concat (map render ts) @ rest) (i + length (render t)) (n + 1) False False e"
      using Cons.prems by (intro Cons.prems(1)) auto
    have "scan_braces (concat (map render ts) @ rest) (i + length (render t)) (n + 1) False False e
      = scan_braces rest (i + length (render t) + length (concat (map render ts))) (n + 1) False False e"
      using Cons.prems by (intro Cons.IH) auto
    with t show ?case by (simp add: add.assoc)
  qed
  show ?case
    using body[of "CHR ''}'' # rest" "Suc i"] ne Braced.prems(2) by simp
qed


lemma scan_tokens:
  "list_all wf_tok ts \<Longrightarrow> 0 < n \<Longrightarrow>
   scan_braces (concat (map render ts) @ rest) i n False False e
     = scan_braces rest (i + length (concat (map render ts))) n False False e"
proof (induction ts arbitrary: i)
  case Nil
  show ?case by simp
next
  case (Cons t ts)
  have "scan_braces (render t @ (concat (map render ts) @ rest)) i n False False e
      = scan_braces (concat (map render ts) @ rest) (i + length (render t)) n False False e"
    using Cons.prems by (intro scan_token) auto
  moreover have "scan_braces (concat (map render ts) @ rest) (i + length (render t)) n False False e
      = scan_braces rest (i + length (render t) + length (concat (map render ts))) n False False e"
    using Cons.prems by (intro Cons.IH) auto
  ultimately show ?case by (simp add: add.assoc)
qed

lemma scan_object:
  assumes "list_all wf_tok ts"
  shows "scan_braces (render (Braced ts) @ post) i 0 False False e
           = (i + length (render (Braced ts)), 0)"
proof -
  have ne: "CHR ''{'' \<noteq> backslash" "CHR ''{'' \<noteq> dquote" "CHR ''}'' \<noteq> backslash"
    "CHR ''}'' \<noteq> dquote"
    by (simp_all add: dquote_def backslash_def)
  show ?thesis
    using scan_tokens[OF assms, of 1 "CHR ''}'' # post" "Suc i" e] ne by simp
qed

lemma extract_json_str_span:
  assumes pre: "CHR ''{'' \<notin> set pre"
    and obj: "obj = CHR ''{'' # body"
    and sc: "scan_braces (obj @ post) (length pre) 0 False False (length pre)
               = (length pre + length obj, 0)"
  shows "extract_json_str (pre @ obj @ post) = Some obj"
proof -
  let ?s = "pre @ obj @ post"
  have f: "str_find ?s ''{'' 0 = int (length pre)"
    using find_at_char[OF pre, of "body @ post" 0]
    by (simp add: str_find_def clamp_index_def obj)
  have cl: "clamp_index ?s (int (length pre)) = length pre"
    by (simp add: clamp_index_def)
  have fr: "str_from ?s (int (length pre)) = obj @ post"
    by (simp add: str_from_def cl)
  have cl2: "clamp_index ?s (int (length pre + length obj)) = length pre + length obj"
    by (simp add: clamp_index_def)
  have sl: "str_slice ?s (int (length pre)) (int (length pre + length obj)) = obj"
    unfolding str_slice_def cl cl2 by simp
  show ?thesis
    unfolding extract_json_str_def Let_def f fr using sc sl by simp
qed

lemma extract_json_str_object:
  assumes w: "wf_tok (Braced ts)" and pre: "CHR ''{'' \<notin> set pre"
  shows "extract_json_str (pre @ render (Braced ts) @ post) = Some (render (Braced ts))"
proof -
  have o: "render (Braced ts) = CHR ''{'' # (concat (map render ts) @ ''}'')" by simp
  from w have "list_all wf_tok ts" by simp
  then have sc: "scan_braces (render (Braced ts) @ post) (length pre) 0 False False (length pre)
      = (length pre + length (render (Braced ts)), 0)"
    by (rule scan_object)
  show ?thesis using pre o sc by (rule extract_json_str_span)
qed

lemma extract_json_str_no_brace: "CHR ''{'' \<notin> set s \<Longrightarrow> extract_json_str s = None"
  using find_at_absent[of "CHR ''{''" s 0]
  by (simp add: extract_json_str_def str_find_def clamp_index_def)

lemma generate_invalid_only_if:
  "fst (generate_test_cases loads dumps to_records fs ctx raw out) = InvalidJson
     \<Longrightarrow> parse_generation_output loads out = None"
  by (cases "parse_generation_output loads out")
     (auto simp: generate_test_cases_def or_generation_error_def and_then_def Let_def
        split: sum.splits if_splits)

lemma additional_info_invalid_iff:
  "fst (generate_test_cases_with_additional_info loads dumps fs ctx out) = InvalidJson
     \<longleftrightarrow> parse_generation_output loads out = None"
  by (cases "parse_generation_output loads out")
     (auto simp: generate_test_cases_with_additional_info_def or_generation_error_def
        and_then_def Let_def split: sum.splits if_splits)

lemma regenerate_invalid_iff:
  "fst (regenerate_test_cases_with_feedback loads dumps fs tid out) = InvalidJson
     \<longleftrightarrow> parse_generation_output loads out = None"
  by (cases "parse_generation_output loads out")
     (auto simp: regenerate_test_cases_with_feedback_def or_generation_error_def
        and_then_def Let_def split: sum.splits if_splits)

text \<open>The text that \<open>json_dumps\<close> writes for a value is the text of its tokens, and
  the tokens are well formed.\<close>

lemma render_plain: "concat (map render (map Plain s)) = s"
  by (induction s) auto

lemma render_join_tokens:
  "concat (map render (join_tokens sep xss))
     = join (concat (map render sep)) (map (\<lambda>ts. concat (map render ts)) xss)"
  by (induction sep xss rule: join_tokens.induct) auto

lemma render_sitem_of: "render_sitem (sitem_of c) = escape_char c"
  by (simp add: sitem_of_def escape_char_def)

lemma render_string: "render (Quoted (map sitem_of s)) = write_string s"
  by (simp add: write_string_def render_sitem_of comp_def)

lemma render_tokens_of: "concat (map render (tokens_of v)) = json_dumps v"
proof (induction v)
  case (JArr xs)
  then have "map (\<lambda>ts. concat (map render ts)) (map tokens_of xs) = map json_dumps xs"
    by (induction xs) auto
  then show ?case by (simp add: render_join_tokens render_plain del: map_map)
next
  case (JObj kvs)
  have "map (\<lambda>ts. concat (map render ts))
          (map (\<lambda>kv. [Quoted (map sitem_of (fst kv))] @ map Plain '': '' @ tokens_of (snd kv)) kvs)
        = map (\<lambda>kv. write_string (fst kv) @ '': '' @ json_dumps (snd kv)) kvs"
    using JObj
  proof (induction kvs)
    case Nil
    show ?case by simp
  next
    case (Cons kv kvs)
    obtain k v where kv: "kv = (k, v)" by (cases kv)
    have "concat (map render (tokens_of v)) = json_dumps v"
      using Cons.prems[of kv v] by (simp add: kv)
    moreover have "map (\<lambda>ts. concat (map render ts))
          (map (\<lambda>kv. [Quoted (map sitem_of (fst kv))] @ map Plain '': '' @ tokens_of (snd kv)) kvs)
        = map (\<lambda>kv. write_string (fst kv) @ '': '' @ json_dumps (snd kv)) kvs"
      using Cons.prems by (intro Cons.IH) auto
    ultimately show ?case
      using render_string[of k] by (simp add: kv del: render.simps(3))
  qed
  then show ?case by (simp add: render_join_tokens render_plain del: map_map)
qed (simp_all add: render_plain render_string del: render.simps(3) map_map)


lemma wf_digit: "k < 10 \<Longrightarrow> wf_tok (Plain (''0123456789'' ! k))"
proof -
  assume "k < 10"
  then have "k = 0 \<or> k = 1 \<or> k = 2 \<or> k = 3 \<or> k = 4 \<or> k = 5 \<or> k = 6 \<or> k = 7 \<or> k = 8 \<or> k = 9"
    by arith
  then show ?thesis
    by (elim disjE) (simp_all add: dquote_def backslash_def)
qed

lemma wf_show_nat: "list_all wf_tok (map Plain (show_nat n))"
proof (induction n rule: show_nat.induct)
  case (1 n)
  show ?case
  proof (cases "n < 10")
    case True
    then show ?thesis using wf_digit[of n] by (subst show_nat.simps) simp
  next
    case False
    have "wf_tok (Plain (''0123456789'' ! (n mod 10)))" by (rule wf_digit) simp
    then show ?thesis using False "1.IH" by (subst show_nat.simps) simp
  qed
qed

lemma wf_show_int: "list_all wf_tok (map Plain (show_int n))"
  using wf_show_nat[of "nat n"] wf_show_nat[of "nat (- n)"]
  by (simp add: show_int_def dquote_def backslash_def)

lemma wf_join_tokens:
  "list_all wf_tok sep \<Longrightarrow> list_all (list_all wf_tok) xss
     \<Longrightarrow> list_all wf_tok (join_tokens sep xss)"
  by (induction sep xss rule: join_tokens.induct) auto

lemma wf_sitem_of: "wf_sitem (sitem_of c)"
  by (simp add: sitem_of_def)

lemma wf_string: "wf_tok (Quoted (map sitem_of s))"
  by (simp add: list_all_iff wf_sitem_of)

lemma wf_tokens_of: "list_all wf_tok (tokens_of v)"
proof (induction v)
  case (JArr xs)
  then have "list_all (list_all wf_tok) (map tokens_of xs)"
    by (simp add: list_all_iff)
  then show ?case
    by (simp add: wf_join_tokens dquote_def backslash_def)
next
  case (JObj kvs)
  have "list_all (list_all wf_tok)
          (map (\<lambda>kv. [Quoted (map sitem_of (fst kv))] @ map Plain '': '' @ tokens_of (snd kv)) kvs)"
    unfolding list_all_iff
  proof
    fix ts
    assume "ts \<in> set (map (\<lambda>kv. [Quoted (map sitem_of (fst kv))] @ map Plain '': ''
                              @ tokens_of (snd kv)) kvs)"
    then obtain k v where kv: "(k, v) \<in> set kvs"
      and ts: "ts = [Quoted (map sitem_of k)] @ map Plain '': '' @ tokens_of v"
      by auto
    have "list_all wf_tok (tokens_of v)"
      using JObj[of "(k, v)" v] kv by simp
    then show "\<forall>t\<in>set ts. wf_tok t"
      using wf_string[of k] unfolding ts
      by (simp add: list_all_iff dquote_def backslash_def del: wf_tok.simps(3))
  qed
  then show ?case
    by (simp add: wf_join_tokens dquote_def backslash_def)
qed (simp_all add: wf_show_int wf_string dquote_def backslash_def del: wf_tok.simps(3))

lemma extract_json_str_dumps:
  assumes "CHR ''{'' \<notin> set pre"
  shows "extract_json_str (pre @ json_dumps (JObj kvs) @ post) = Some (json_dumps (JObj kvs))"
proof -
  obtain ts where ts: "tokens_of (JObj kvs) = [Braced ts]" by simp
  have w: "wf_tok (Braced ts)"
    using wf_tokens_of[of "JObj kvs"] unfolding ts by simp
  have r: "render (Braced ts) = json_dumps (JObj kvs)"
    using render_tokens_of[of "JObj kvs"] unfolding ts by simp
  show ?thesis
    using extract_json_str_object[OF w assms, of post] unfolding r .
qed

text \<open>
  Claim C3, as the code has it. For a text \<open>pre @ obj @ post\<close> where \<open>obj\<close> is a
  braced token (the text of a JSON object is one) and \<open>pre\<close> has no opening brace, so that \<open>obj\<close> starts at the first
  \<^verbatim>\<open>{\<close>: the extracted text is exactly \<open>obj\<close>, whatever prose, code fences or braces
  follow it, and the parser is given \<open>obj\<close>; in particular for the text that
  \<open>json_dumps\<close> writes for an object. With no \<^verbatim>\<open>{\<close> in the input nothing is
  extracted; and whenever nothing is extracted (no \<^verbatim>\<open>{\<close>, or the counter not back at
  zero) the whole input is parsed, and the "did not return valid JSON" error is reported
  only if that parse fails: in \<^verbatim>\<open>generate_test_cases\<close> the array fallback comes first,
  in the other two functions it is reported exactly then.
\<close>

theorem C3_balanced_object_extracted:
  "(wf_tok (Braced ts) \<and> CHR ''{'' \<notin> set pre \<longrightarrow>
      extract_json_str (pre @ render (Braced ts) @ post) = Some (render (Braced ts))
      \<and> parse_generation_output loads (pre @ render (Braced ts) @ post)
          = loads (render (Braced ts)))
   \<and> (CHR ''{'' \<notin> set pre \<longrightarrow>
      extract_json_str (pre @ json_dumps (JObj kvs) @ post) = Some (json_dumps (JObj kvs)))
   \<and> (CHR ''{'' \<notin> set s \<longrightarrow> extract_json_str s = None)
   \<and> (extract_json_str s = None \<longrightarrow>
        parse_generation_output loads s = loads s
        \<and> (fst (generate_test_cases loads dumps to_records fs ctx raw s) = InvalidJson
             \<longrightarrow> loads s = None)
        \<and> (fst (generate_test_cases_with_additional_info loads dumps fs ctx s) = InvalidJson
             \<longleftrightarrow> loads s = None)
        \<and> (fst (regenerate_test_cases_with_feedback loads dumps fs tid s) = InvalidJson
             \<longleftrightarrow> loads s = None))"
proof (intro conjI impI)
  assume a: "wf_tok (Braced ts) \<and> CHR ''{'' \<notin> set pre"
  then show e: "extract_json_str (pre @ render (Braced ts) @ post) = Some (render (Braced ts))"
    by (intro extract_json_str_object) auto
  then show "parse_generation_output loads (pre @ render (Braced ts) @ post)
          = loads (render (Braced ts))"
    by (simp add: parse_generation_output_def)
next
  assume "CHR ''{'' \<notin> set pre"
  then show "extract_json_str (pre @ json_dumps (JObj kvs) @ post) = Some (json_dumps (JObj kvs))"
    by (rule extract_json_str_dumps)
next
  assume "CHR ''{'' \<notin> set s"
  then show "extract_json_str s = None" by (rule extract_json_str_no_brace)
next
  assume n: "extract_json_str s = None"
  then show p: "parse_generation_output loads s = loads s"
    by (simp add: parse_generation_output_def)
  show "fst (generate_test_cases loads dumps to_records fs ctx raw s) = InvalidJson \<Longrightarrow> loads s = None"
    using generate_invalid_only_if[of loads dumps to_records fs ctx raw s] p by simp
  show "(fst (generate_test_cases_with_additional_info loads dumps fs ctx s) = InvalidJson)
          = (loads s = None)"
    using additional_info_invalid_iff[of loads dumps fs ctx s] p by simp
  show "(fst (regenerate_test_cases_with_feedback loads dumps fs tid s) = InvalidJson)
          = (loads s = None)"
    using regenerate_invalid_iff[of loads dumps fs tid s] p by simp
qed


text \<open>
  The theorem on an object in prose and a code fence, with a brace and an escaped quote
  inside a string, a nested object and a stray brace after it; and on a text without a
  brace.
\<close>

theorem C3_balanced_object_extracted_witness:
  \<open>render example_object = ''{"a": "}'' @ [backslash] @ ''"", "b": {}}''
   \<and> extract_json_str (''Here it is: '' @ fence @ ''json '' @ render example_object
                          @ '' '' @ fence @ '' and a stray } after'')
       = Some (render example_object)
   \<and> extract_json_str ''no object here'' = None
   \<and> parse_generation_output json_loads ''no object here'' = json_loads ''no object here''\<close>
proof -
  let ?ts = "[Quoted [Ch CHR ''a''], Plain CHR '':'', Plain CHR '' '',
             Quoted [Ch CHR ''}'', Esc dquote], Plain CHR '','', Plain CHR '' '',
             Quoted [Ch CHR ''b''], Plain CHR '':'', Plain CHR '' '', Braced []]"
  let ?pre = "''Here it is: '' @ fence @ ''json ''"
  let ?post = "'' '' @ fence @ '' and a stray } after''"
  have eo: "example_object = Braced ?ts" by (simp add: example_object_def)
  have w: "wf_tok (Braced ?ts)" by (simp add: dquote_def backslash_def)
  have p: "CHR ''{'' \<notin> set ?pre" by (simp add: fence_def)
  have r: \<open>render (Braced ?ts) = ''{"a": "}'' @ [backslash] @ ''"", "b": {}}''\<close>
    by (simp add: dquote_def)
  have n: "CHR ''{'' \<notin> set ''no object here''" by simp
  from C3_balanced_object_extracted[where ts = ?ts and pre = ?pre and post = ?post
      and loads = json_loads and s = "''no object here''"] w p n
  have "extract_json_str (?pre @ render (Braced ?ts) @ ?post) = Some (render (Braced ?ts))"
    and "extract_json_str ''no object here'' = None"
    and "parse_generation_output json_loads ''no object here'' = json_loads ''no object here''"
    by blast+
  with r show ?thesis unfolding eo by simp
qed

text \<open>
  Claim C3 as stated fails when the prose before the object has a brace of its own: the
  scan starts at the first \<^verbatim>\<open>{\<close> of the input, so from \<^verbatim>\<open>Use {x} here: {"a": 1} end\<close>
  the text \<^verbatim>\<open>{x}\<close> is extracted, the parser rejects it, and the object that follows is
  never tried, although the parser accepts it.
\<close>

theorem C3_brace_in_prose_counterexample:
  \<open>extract_json_str example_braces_in_prose = Some ''{x}''
   \<and> extract_json_str example_braces_in_prose \<noteq> Some ''{"a": 1}''
   \<and> json_loads ''{"a": 1}'' = Some (JObj [(''a'', JNum 1)])
   \<and> parse_generation_output json_loads example_braces_in_prose = None
   \<and> fst (generate_test_cases_with_additional_info json_loads json_dumps example_files
             example_context example_braces_in_prose) = InvalidJson\<close>
  by code_simp

subsection \<open>The caches\<close>

lemma upper_not_separator:
  "is_upper c \<Longrightarrow> c \<noteq> CHR ''/'' \<and> c \<noteq> backslash \<and> c \<noteq> CHR '' ''"
proof -
  have nu: "\<not> is_upper CHR ''/''" "\<not> is_upper backslash" "\<not> is_upper CHR '' ''"
    by (simp_all add: is_upper_def backslash_def)
  assume "is_upper c"
  with nu show ?thesis by auto
qed

lemma digit_not_separator:
  "is_digit c \<Longrightarrow> c \<noteq> CHR ''/'' \<and> c \<noteq> backslash \<and> c \<noteq> CHR '' ''"
proof -
  have nd: "\<not> is_digit CHR ''/''" "\<not> is_digit backslash" "\<not> is_digit CHR '' ''"
    by (simp_all add: is_digit_def backslash_def)
  assume "is_digit c"
  with nd show ?thesis by auto
qed

lemma hyphen_not_separator:
  "CHR ''-'' \<noteq> CHR ''/'' \<and> CHR ''-'' \<noteq> backslash \<and> CHR ''-'' \<noteq> CHR '' ''"
  by (simp add: backslash_def)

lemma hyphen_digits_chars:
  assumes "r \<noteq> []" "hd r = CHR ''-''" "list_all is_digit (tl r)"
  shows "\<forall>c\<in>set r. c \<noteq> CHR ''/'' \<and> c \<noteq> backslash \<and> c \<noteq> CHR '' ''"
proof -
  have s: "set r = insert (hd r) (set (tl r))"
    using assms(1) by (cases r) simp_all
  have t: "\<forall>c\<in>set (tl r). c \<noteq> CHR ''/'' \<and> c \<noteq> backslash \<and> c \<noteq> CHR '' ''"
    using assms(3) digit_not_separator by (auto simp: list_all_iff)
  from s assms(2) hyphen_not_separator t show ?thesis by auto
qed

lemma ball_union: "\<forall>c\<in>A. P c \<Longrightarrow> \<forall>c\<in>B. P c \<Longrightarrow> S = A \<union> B \<Longrightarrow> \<forall>c\<in>S. P c"
  by blast

lemma not_members: "\<forall>c\<in>S. c \<noteq> a \<and> c \<noteq> b \<and> c \<noteq> d \<Longrightarrow> a \<notin> S \<and> b \<notin> S \<and> d \<notin> S"
  by blast

lemma ticket_id_chars:
  assumes "is_ticket_id t"
  shows "CHR ''/'' \<notin> set t \<and> backslash \<notin> set t \<and> CHR '' '' \<notin> set t"
proof -
  let ?l = "takeWhile is_upper t" and ?r = "dropWhile is_upper t"
  have r: "?r \<noteq> []" "hd ?r = CHR ''-''" "list_all is_digit (tl ?r)"
    using assms unfolding is_ticket_id_def Let_def by blast+
  have l: "\<forall>c\<in>set ?l. c \<noteq> CHR ''/'' \<and> c \<noteq> backslash \<and> c \<noteq> CHR '' ''"
  proof
    fix c assume "c \<in> set ?l"
    then have "is_upper c" by (rule set_takeWhileD[THEN conjunct2])
    then show "c \<noteq> CHR ''/'' \<and> c \<noteq> backslash \<and> c \<noteq> CHR '' ''"
      by (rule upper_not_separator)
  qed
  note rr = hyphen_digits_chars[OF r]
  have st: "set t = set ?l \<union> set ?r"
    using set_append[of ?l ?r] by simp
  have "\<forall>c\<in>set t. c \<noteq> CHR ''/'' \<and> c \<noteq> backslash \<and> c \<noteq> CHR '' ''"
    using l rr st by (rule ball_union)
  then show ?thesis by (rule not_members)
qed

text \<open>
  Claim C9. The file of the test-case cache is named by the ticket id with every \<^verbatim>\<open>/\<close>
  and backslash replaced by an underscore; the file of the code cache by the ticket id
  treated the same way (when there is one) and the test-case id with every \<^verbatim>\<open>/\<close>,
  backslash and space replaced. For a ticket id of the form that \<^verbatim>\<open>extract_ticket_id\<close>
  returns, and any test-case id, the file name of either cache contains no \<^verbatim>\<open>/\<close>, no
  backslash and no space.
\<close>

theorem C9_cache_file_names:
  "get_cache_file_path ticket_id
     = ''testcaseGenerated/''
       @ map (\<lambda>c. if c = CHR ''/'' \<or> c = backslash then CHR ''_'' else c) ticket_id
       @ ''_test_case.json''
   \<and> get_code_cache_file_path test_case_id (Some ticket_id)
     = ''codeGenerated/''
       @ (if ticket_id = [] then []
          else map (\<lambda>c. if c = CHR ''/'' \<or> c = backslash then CHR ''_'' else c) ticket_id @ ''_'')
       @ map (\<lambda>c. if c = CHR ''/'' \<or> c = backslash \<or> c = CHR '' '' then CHR ''_'' else c)
           test_case_id
       @ ''_code.json''
   \<and> get_code_cache_file_path test_case_id None
     = ''codeGenerated/''
       @ map (\<lambda>c. if c = CHR ''/'' \<or> c = backslash \<or> c = CHR '' '' then CHR ''_'' else c)
           test_case_id
       @ ''_code.json''
   \<and> (is_ticket_id ticket_id \<longrightarrow>
        (\<exists>name. get_cache_file_path ticket_id = ''testcaseGenerated/'' @ name
            \<and> CHR ''/'' \<notin> set name \<and> backslash \<notin> set name \<and> CHR '' '' \<notin> set name)
        \<and> (\<exists>name. get_code_cache_file_path test_case_id (Some ticket_id)
                     = ''codeGenerated/'' @ name
            \<and> CHR ''/'' \<notin> set name \<and> backslash \<notin> set name \<and> CHR '' '' \<notin> set name))
   \<and> (\<exists>name. get_code_cache_file_path test_case_id None = ''codeGenerated/'' @ name
         \<and> CHR ''/'' \<notin> set name \<and> backslash \<notin> set name \<and> CHR '' '' \<notin> set name)"
proof -
  let ?s2 = "\<lambda>c. if c = CHR ''/'' \<or> c = backslash then CHR ''_'' else c"
  let ?s3 = "\<lambda>c. if c = CHR ''/'' \<or> c = backslash \<or> c = CHR '' '' then CHR ''_'' else c"
  have r2: "\<And>s. replace [backslash] ''_'' (replace ''/'' ''_'' s) = map ?s2 s"
    by (auto simp: replace_char)
  have r3: "\<And>s. replace '' '' ''_'' (map ?s2 s) = map ?s3 s"
    by (auto simp: replace_char backslash_def)
  have n2: "\<And>s t. \<not> prefix ''/'' (map ?s2 s @ CHR ''_'' # t)"
    by (case_tac s) auto
  have n3: "\<And>s t. \<not> prefix ''/'' (map ?s3 s @ CHR ''_'' # t)"
    by (case_tac s) auto
  have a: "get_cache_file_path ticket_id = ''testcaseGenerated/'' @ map ?s2 ticket_id @ ''_test_case.json''"
    unfolding get_cache_file_path_def Let_def r2 path_join_def CACHE_DIR_def
    using n2[of ticket_id "''test_case.json''"] by simp
  have b: "get_code_cache_file_path test_case_id None
      = ''codeGenerated/'' @ map ?s3 test_case_id @ ''_code.json''"
    unfolding get_code_cache_file_path_def Let_def r2 r3 path_join_def CODE_CACHE_DIR_def
    using n3[of test_case_id "''code.json''"] by simp
  have c: "get_code_cache_file_path test_case_id (Some ticket_id)
      = ''codeGenerated/''
        @ (if ticket_id = [] then [] else map ?s2 ticket_id @ ''_'')
        @ map ?s3 test_case_id @ ''_code.json''"
    unfolding get_code_cache_file_path_def Let_def r2 r3 path_join_def CODE_CACHE_DIR_def
    using n3[of test_case_id "''code.json''"]
      n2[of ticket_id "map ?s3 test_case_id @ ''_code.json''"] by simp
  have s3: "CHR ''/'' \<notin> set (map ?s3 test_case_id) \<and> backslash \<notin> set (map ?s3 test_case_id)
      \<and> CHR '' '' \<notin> set (map ?s3 test_case_id)"
    by (auto simp: backslash_def)
  have sfx: "CHR ''/'' \<notin> set ''_test_case.json'' \<and> backslash \<notin> set ''_test_case.json''
      \<and> CHR '' '' \<notin> set ''_test_case.json''"
    "CHR ''/'' \<notin> set ''_code.json'' \<and> backslash \<notin> set ''_code.json''
      \<and> CHR '' '' \<notin> set ''_code.json''"
    by (simp_all add: backslash_def)
  have d: "\<exists>name. get_code_cache_file_path test_case_id None = ''codeGenerated/'' @ name
         \<and> CHR ''/'' \<notin> set name \<and> backslash \<notin> set name \<and> CHR '' '' \<notin> set name"
  proof (intro exI conjI)
    show "get_code_cache_file_path test_case_id None
      = ''codeGenerated/'' @ (map ?s3 test_case_id @ ''_code.json'')" using b by simp
  qed (use s3 sfx(2) in auto)
  have e: "is_ticket_id ticket_id \<Longrightarrow>
        (\<exists>name. get_cache_file_path ticket_id = ''testcaseGenerated/'' @ name
            \<and> CHR ''/'' \<notin> set name \<and> backslash \<notin> set name \<and> CHR '' '' \<notin> set name)
        \<and> (\<exists>name. get_code_cache_file_path test_case_id (Some ticket_id)
                     = ''codeGenerated/'' @ name
            \<and> CHR ''/'' \<notin> set name \<and> backslash \<notin> set name \<and> CHR '' '' \<notin> set name)"
  proof -
    assume t: "is_ticket_id ticket_id"
    note tc = ticket_id_chars[OF t]
    have s2: "CHR ''/'' \<notin> set (map ?s2 ticket_id) \<and> backslash \<notin> set (map ?s2 ticket_id)
      \<and> CHR '' '' \<notin> set (map ?s2 ticket_id)"
      using tc by (auto simp: backslash_def)
    have e1: "\<exists>name. get_cache_file_path ticket_id = ''testcaseGenerated/'' @ name
            \<and> CHR ''/'' \<notin> set name \<and> backslash \<notin> set name \<and> CHR '' '' \<notin> set name"
    proof (intro exI conjI)
      show "get_cache_file_path ticket_id
        = ''testcaseGenerated/'' @ (map ?s2 ticket_id @ ''_test_case.json'')" using a by simp
    qed (use s2 sfx(1) in auto)
    have e2: "\<exists>name. get_code_cache_file_path test_case_id (Some ticket_id)
                     = ''codeGenerated/'' @ name
            \<and> CHR ''/'' \<notin> set name \<and> backslash \<notin> set name \<and> CHR '' '' \<notin> set name"
    proof (intro exI conjI)
      show "get_code_cache_file_path test_case_id (Some ticket_id)
        = ''codeGenerated/'' @ ((if ticket_id = [] then [] else map ?s2 ticket_id @ ''_'')
            @ map ?s3 test_case_id @ ''_code.json'')" using c by simp
    qed (use s2 s3 sfx(2) in \<open>auto simp: backslash_def\<close>)
    from e1 e2 show ?thesis by blast
  qed
  from a b c d e show ?thesis by blast
qed

text \<open>The theorem on the ticket id \<^verbatim>\<open>PAN-12776\<close> and the test-case id \<^verbatim>\<open>TC 01/a\<close>.\<close>

theorem C9_cache_file_names_witness:
  "is_ticket_id ''PAN-12776''
   \<and> get_cache_file_path ''PAN-12776'' = ''testcaseGenerated/PAN-12776_test_case.json''
   \<and> get_code_cache_file_path ''TC 01/a'' (Some ''PAN-12776'')
       = ''codeGenerated/PAN-12776_TC_01_a_code.json''
   \<and> (\<exists>name. get_code_cache_file_path ''TC 01/a'' (Some ''PAN-12776'')
                = ''codeGenerated/'' @ name
          \<and> CHR ''/'' \<notin> set name \<and> backslash \<notin> set name \<and> CHR '' '' \<notin> set name)"
proof -
  have h: "is_ticket_id ''PAN-12776''" by code_simp
  have p: "get_cache_file_path ''PAN-12776'' = ''testcaseGenerated/PAN-12776_test_case.json''"
    "get_code_cache_file_path ''TC 01/a'' (Some ''PAN-12776'')
       = ''codeGenerated/PAN-12776_TC_01_a_code.json''"
    by code_simp+
  from C9_cache_file_names[of "''PAN-12776''" "''TC 01/a''"] h
  have "\<exists>name. get_code_cache_file_path ''TC 01/a'' (Some ''PAN-12776'')
                = ''codeGenerated/'' @ name
          \<and> CHR ''/'' \<notin> set name \<and> backslash \<notin> set name \<and> CHR '' '' \<notin> set name"
    by blast
  with h p show ?thesis by blast
qed




subsection \<open>The parser of generated code\<close>

lemma py_all_in_object:
  "py_all_in ks (JObj kvs) = Inr (set ks \<subseteq> fst ` set kvs)"
  by (induction ks) (auto simp: py_in_def)

lemma validated_object:
  "validated (JObj kvs) = (if set required_keys \<subseteq> fst ` set kvs then Some (JObj kvs) else None)"
  by (simp add: validated_def py_all_in_object)

lemma validated_Some: "validated p = Some q \<Longrightarrow> q = p"
  by (auto simp: validated_def split: sum.splits if_splits)

text \<open>A dictionary is returned only with the four keys, and a text that fails both
  parses gives nothing.\<close>

lemma parse_code_json_object_has_keys:
  "parse_code_json loads raw_output = Some (JObj kvs) \<Longrightarrow> set required_keys \<subseteq> fst ` set kvs"
proof -
  have v: "\<And>p. validated p = Some (JObj kvs) \<Longrightarrow> set required_keys \<subseteq> fst ` set kvs"
  proof -
    fix p assume a: "validated p = Some (JObj kvs)"
    then have "p = JObj kvs" by (auto dest: validated_Some)
    with a show "set required_keys \<subseteq> fst ` set kvs"
      by (simp add: validated_object split: if_splits)
  qed
  assume "parse_code_json loads raw_output = Some (JObj kvs)"
  then show ?thesis
    by (auto simp: parse_code_json_def Let_def split: option.splits dest: v)
qed

lemma parse_code_json_parse_failure:
  "loads (code_json_str raw_output) = None
   \<Longrightarrow> loads (strip_trailing_commas (code_json_str raw_output)) = None
   \<Longrightarrow> parse_code_json loads raw_output = None"
  by (simp add: parse_code_json_def Let_def)

text \<open>
  Claim C10, evaluated on a JSON array of the four key names: the test
  \<^verbatim>\<open>key in parsed\<close> holds for the items of a list, and the list is returned, which is
  neither nothing nor a dictionary with the four keys.
\<close>

theorem C10_key_list_returned:
  "parse_code_json json_loads example_key_list
     = Some (JArr [JStr ''locators'', JStr ''reusable_functions'', JStr ''test_functions'',
                   JStr ''cursor_prompt''])"
  by code_simp

text \<open>The two passes of the rewrite, on a text cut at every occurrence of the two
  patterns: the pieces \<open>s\<close> before an occurrence, each with the closer \<open>c\<close> of that
  occurrence, and the rest \<open>t\<close>.\<close>

lemma pass_brace:
  assumes "\<forall>(s, c)\<in>set segs. (c = CHR ''}'' \<or> c = CHR '']'')
              \<and> \<not> contains [CHR '','', newline, CHR ''}''] s"
    and "\<not> contains [CHR '','', newline, CHR ''}''] t"
  shows "replace [CHR '','', newline, CHR ''}''] [newline, CHR ''}'']
           (concat (map (\<lambda>(s, c). s @ [CHR '','', newline, c]) segs) @ t)
         = concat (map (\<lambda>(s, c). s @ (if c = CHR ''}'' then [newline, c]
                                         else [CHR '','', newline, c])) segs) @ t"
  using assms(1)
proof (induction segs)
  case Nil
  show ?case using assms(2) by (simp add: replace_absent)
next
  case (Cons sc segs)
  obtain s c where sc: "sc = (s, c)" by (cases sc)
  from Cons.prems have c: "c = CHR ''}'' \<or> c = CHR '']''"
    and s: "\<not> contains [CHR '','', newline, CHR ''}''] s"
    and rest: "\<forall>(s, c)\<in>set segs. (c = CHR ''}'' \<or> c = CHR '']'')
              \<and> \<not> contains [CHR '','', newline, CHR ''}''] s"
    by (auto simp: sc)
  note ih = Cons.IH[OF rest]
  have n: "newline \<noteq> CHR '',''" by (simp add: newline_def)
  from c show ?case
  proof
    assume "c = CHR ''}''"
    then show ?thesis
      using replace3_hit[OF s n, of "[newline, CHR ''}'']"] ih by (simp add: sc)
  next
    assume "c = CHR '']''"
    then show ?thesis
      using replace3_miss[OF s n, of "CHR '']''"] ih by (simp add: sc)
  qed
qed

lemma pass_bracket:
  assumes "\<forall>(s, c)\<in>set segs. (c = CHR ''}'' \<or> c = CHR '']'')
              \<and> \<not> contains [CHR '','', newline, CHR '']''] s"
    and "\<not> contains [CHR '','', newline, CHR '']''] t"
  shows "replace [CHR '','', newline, CHR '']''] [newline, CHR '']'']
           (concat (map (\<lambda>(s, c). s @ (if c = CHR ''}'' then [newline, c]
                                         else [CHR '','', newline, c])) segs) @ t)
         = concat (map (\<lambda>(s, c). s @ [newline, c]) segs) @ t"
  using assms(1)
proof (induction segs)
  case Nil
  show ?case using assms(2) by (simp add: replace_absent)
next
  case (Cons sc segs)
  obtain s c where sc: "sc = (s, c)" by (cases sc)
  from Cons.prems have c: "c = CHR ''}'' \<or> c = CHR '']''"
    and s: "\<not> contains [CHR '','', newline, CHR '']''] s"
    and rest: "\<forall>(s, c)\<in>set segs. (c = CHR ''}'' \<or> c = CHR '']'')
              \<and> \<not> contains [CHR '','', newline, CHR '']''] s"
    by (auto simp: sc)
  note ih = Cons.IH[OF rest]
  have n: "newline \<noteq> CHR '',''" "CHR '']'' \<noteq> newline" by (simp_all add: newline_def)
  from c show ?case
  proof
    assume "c = CHR ''}''"
    then show ?thesis
      using replace3_inert[OF s n, of "CHR ''}''"] ih by (simp add: sc)
  next
    assume "c = CHR '']''"
    then show ?thesis
      using replace3_hit[OF s n(1), of "[newline, CHR '']'']"] ih by (simp add: sc)
  qed
qed

lemma strip_trailing_commas_segments:
  assumes "\<forall>(s, c)\<in>set segs. (c = CHR ''}'' \<or> c = CHR '']'')
              \<and> \<not> contains ('','' @ [newline] @ ''}'') s
              \<and> \<not> contains ('','' @ [newline] @ '']'') s"
    and "\<not> contains ('','' @ [newline] @ ''}'') t" "\<not> contains ('','' @ [newline] @ '']'') t"
  shows "strip_trailing_commas (concat (map (\<lambda>(s, c). s @ '','' @ [newline, c]) segs) @ t)
         = concat (map (\<lambda>(s, c). s @ [newline, c]) segs) @ t"
proof -
  have a: "\<forall>(s, c)\<in>set segs. (c = CHR ''}'' \<or> c = CHR '']'')
              \<and> \<not> contains [CHR '','', newline, CHR ''}''] s"
    and b: "\<forall>(s, c)\<in>set segs. (c = CHR ''}'' \<or> c = CHR '']'')
              \<and> \<not> contains [CHR '','', newline, CHR '']''] s"
    using assms(1) by auto
  have t: "\<not> contains [CHR '','', newline, CHR ''}''] t" "\<not> contains [CHR '','', newline, CHR '']''] t"
    using assms(2,3) by simp_all
  show ?thesis
    unfolding strip_trailing_commas_def
    using pass_brace[OF a t(1)] pass_bracket[OF b t(2)] by simp
qed

text \<open>
  Claim C4, as the code has it. Let the text handed to the parser be cut at every place
  where a comma stands directly before a newline and a closing brace or bracket: pieces
  \<open>s\<close> that contain neither pattern, each followed by the pattern with its closer
  \<open>c\<close>, and a rest \<open>t\<close> that contains neither. When the parser rejects that text,
  \<^verbatim>\<open>parse_code_json\<close> parses once more, the text with the comma removed at every one
  of these places and nowhere else: it returns the object that the second parse yields
  when that object has the four keys, and nothing when the second parse fails or the
  object lacks a key. \<^verbatim>\<open>generate_test_cases\<close> does not rewrite: when its parse fails, its
  answer is that of the array fallback, which is the invalid-JSON error when the raw
  output has no array of objects.
\<close>

theorem C4_single_rewrite_retry:
  "((\<forall>(s, c)\<in>set segs. (c = CHR ''}'' \<or> c = CHR '']'')
          \<and> \<not> contains ('','' @ [newline] @ ''}'') s
          \<and> \<not> contains ('','' @ [newline] @ '']'') s)
      \<and> \<not> contains ('','' @ [newline] @ ''}'') t
      \<and> \<not> contains ('','' @ [newline] @ '']'') t
      \<and> code_json_str raw_output = concat (map (\<lambda>(s, c). s @ '','' @ [newline, c]) segs) @ t
      \<and> loads (code_json_str raw_output) = None
    \<longrightarrow> strip_trailing_commas (code_json_str raw_output)
          = concat (map (\<lambda>(s, c). s @ [newline, c]) segs) @ t
        \<and> (loads (concat (map (\<lambda>(s, c). s @ [newline, c]) segs) @ t) = Some (JObj kvs)
             \<and> set required_keys \<subseteq> fst ` set kvs
           \<longrightarrow> parse_code_json loads raw_output = Some (JObj kvs))
        \<and> (loads (concat (map (\<lambda>(s, c). s @ [newline, c]) segs) @ t) = Some (JObj kvs)
             \<and> \<not> set required_keys \<subseteq> fst ` set kvs
           \<longrightarrow> parse_code_json loads raw_output = None)
        \<and> (loads (concat (map (\<lambda>(s, c). s @ [newline, c]) segs) @ t) = None
           \<longrightarrow> parse_code_json loads raw_output = None))
   \<and> (parse_generation_output loads generation_output = None
    \<longrightarrow> generate_test_cases loads dumps to_records fs ctx raw generation_output
          = array_fallback loads dumps to_records fs (ctx_ticket_id ctx) raw
        \<and> (search_array raw = None
           \<longrightarrow> generate_test_cases loads dumps to_records fs ctx raw generation_output
                 = (InvalidJson, fs)))"
proof (intro conjI impI)
  let ?repaired = "concat (map (\<lambda>(s, c). s @ [newline, c]) segs) @ t"
  assume h: "(\<forall>(s, c)\<in>set segs. (c = CHR ''}'' \<or> c = CHR '']'')
          \<and> \<not> contains ('','' @ [newline] @ ''}'') s
          \<and> \<not> contains ('','' @ [newline] @ '']'') s)
      \<and> \<not> contains ('','' @ [newline] @ ''}'') t
      \<and> \<not> contains ('','' @ [newline] @ '']'') t
      \<and> code_json_str raw_output = concat (map (\<lambda>(s, c). s @ '','' @ [newline, c]) segs) @ t
      \<and> loads (code_json_str raw_output) = None"
  then have segs: "\<forall>(s, c)\<in>set segs. (c = CHR ''}'' \<or> c = CHR '']'')
          \<and> \<not> contains ('','' @ [newline] @ ''}'') s
          \<and> \<not> contains ('','' @ [newline] @ '']'') s"
    and t: "\<not> contains ('','' @ [newline] @ ''}'') t" "\<not> contains ('','' @ [newline] @ '']'') t"
    and e: "code_json_str raw_output
              = concat (map (\<lambda>(s, c). s @ '','' @ [newline, c]) segs) @ t"
    and l0: "loads (code_json_str raw_output) = None"
    by blast+
  show s: "strip_trailing_commas (code_json_str raw_output) = ?repaired"
    unfolding e using segs t by (rule strip_trailing_commas_segments)
  have p: "parse_code_json loads raw_output
             = (case loads ?repaired of Some parsed \<Rightarrow> validated parsed | None \<Rightarrow> None)"
    unfolding parse_code_json_def Let_def l0 s by simp
  {
    assume "loads ?repaired = Some (JObj kvs) \<and> set required_keys \<subseteq> fst ` set kvs"
    then show "parse_code_json loads raw_output = Some (JObj kvs)"
      unfolding p by (simp add: validated_object)
  }
  {
    assume "loads ?repaired = Some (JObj kvs) \<and> \<not> set required_keys \<subseteq> fst ` set kvs"
    then show "parse_code_json loads raw_output = None"
      unfolding p by (simp add: validated_object)
  }
  {
    assume "loads ?repaired = None"
    then show "parse_code_json loads raw_output = None"
      unfolding p by simp
  }
next
  assume n: "parse_generation_output loads generation_output = None"
  then show f: "generate_test_cases loads dumps to_records fs ctx raw generation_output
          = array_fallback loads dumps to_records fs (ctx_ticket_id ctx) raw"
    by (simp add: generate_test_cases_def)
  assume "search_array raw = None"
  then show "generate_test_cases loads dumps to_records fs ctx raw generation_output
                 = (InvalidJson, fs)"
    unfolding f by (simp add: array_fallback_def)
qed

text \<open>
  The theorem on an object with a trailing comma in its array and one before its closing
  brace, both before a newline, and on an object with the comma directly before the brace.
\<close>

theorem C4_single_rewrite_retry_witness:
  "parse_code_json json_loads example_two_commas = Some example_two_commas_object
   \<and> parse_code_json json_loads example_comma_brace = None"
proof -
  let ?P1 = "'','' @ [newline] @ ''}''"
  let ?P2 = "'','' @ [newline] @ '']''"
  let ?s1 = \<open>''{"locators": [1''\<close>
  let ?s2 = \<open>'', "reusable_functions": 2, "test_functions": 3, "cursor_prompt": 4''\<close>
  let ?segs = "[(?s1, CHR '']''), (?s2, CHR ''}'')]"
  let ?kvs = "[(''locators'', JArr [JNum 1]), (''reusable_functions'', JNum 2),
           (''test_functions'', JNum 3), (''cursor_prompt'', JNum 4)]"
  have c: "\<not> contains ?P1 ?s1" "\<not> contains ?P2 ?s1" "\<not> contains ?P1 ?s2" "\<not> contains ?P2 ?s2"
    by code_simp+
  have g: "\<forall>(s, c)\<in>set ?segs. (c = CHR ''}'' \<or> c = CHR '']'')
          \<and> \<not> contains ?P1 s \<and> \<not> contains ?P2 s"
    using c by simp
  have t: "\<not> contains ?P1 []" "\<not> contains ?P2 []" by simp_all
  have j: "code_json_str example_two_commas
             = concat (map (\<lambda>(s, c). s @ '','' @ [newline, c]) ?segs) @ []"
    by code_simp
  have l1: "json_loads (code_json_str example_two_commas) = None" by code_simp
  have l2: "json_loads (concat (map (\<lambda>(s, c). s @ [newline, c]) ?segs) @ []) = Some (JObj ?kvs)"
    by code_simp
  have k: "set required_keys \<subseteq> fst ` set ?kvs" by (simp add: required_keys_def)
  from C4_single_rewrite_retry[where segs = ?segs and t = "[]"
      and raw_output = example_two_commas and loads = json_loads and kvs = ?kvs] g t j l1 l2 k
  have a: "parse_code_json json_loads example_two_commas = Some (JObj ?kvs)"
    by blast
  have g0: "\<forall>(s, c)\<in>set ([] :: (string \<times> char) list). (c = CHR ''}'' \<or> c = CHR '']'')
          \<and> \<not> contains ?P1 s \<and> \<not> contains ?P2 s"
    by simp
  have m0: "code_json_str example_comma_brace
              = concat (map (\<lambda>(s, c). s @ '','' @ [newline, c]) []) @ example_comma_brace"
    by code_simp
  have m1: "json_loads (code_json_str example_comma_brace) = None" by code_simp
  have m2: "\<not> contains ?P1 example_comma_brace" "\<not> contains ?P2 example_comma_brace"
    by code_simp+
  have m3: "json_loads (concat (map (\<lambda>(s, c). s @ [newline, c]) []) @ example_comma_brace) = None"
    by code_simp
  from C4_single_rewrite_retry[where segs = "[]" and t = example_comma_brace
      and raw_output = example_comma_brace and loads = json_loads] g0 m0 m1 m2 m3
  have b: "parse_code_json json_loads example_comma_brace = None"
    by blast
  from a b show ?thesis by (simp add: example_two_commas_object_def)
qed

text \<open>
  Claim C4 as stated fails. A trailing comma directly before the closing brace, or before
  a newline and an indented brace, is not repaired by \<^verbatim>\<open>parse_code_json\<close>, although the
  text without the comma parses; a repaired text that parses to an object without the
  four keys yields nothing; and \<^verbatim>\<open>generate_test_cases\<close> has no retry, so a text that the
  rewrite would repair is answered with the invalid-JSON error.
\<close>

theorem C4_trailing_comma_counterexample:
  "parse_code_json json_loads example_comma_brace = None
   \<and> parse_code_json json_loads example_comma_indented_brace = None
   \<and> json_loads example_no_comma = Some example_code_object
   \<and> parse_code_json json_loads example_other_object_comma = None
   \<and> json_loads (strip_trailing_commas example_other_object_comma) = Some (JObj [(''a'', JNum 1)])
   \<and> fst (generate_test_cases json_loads json_dumps (\<lambda>rows. rows) example_files example_context
            example_invalid_status_comma example_invalid_status_comma) = InvalidJson
   \<and> json_loads (strip_trailing_commas example_invalid_status_comma)
       = Some (JObj [(''status'', JStr ''invalid'')])"
  by code_simp

end
